theory Spec2Isabelle
  imports Complex_Main "HOL-Library.Multiset"
begin

section \<open>Data model\<close>

text \<open>
  The ranking engine of \<^verbatim>\<open>src/utils/scoring.ts\<close>. A JavaScript \<^verbatim>\<open>number\<close> that holds a
  mark is modelled as a \<^typ>\<open>real\<close>: marks are finite (the parser only produces finite,
  non-negative decimals), and the rounding of floating-point addition is not modelled.
  The comparisons \<^verbatim>\<open>>\<close>, \<^verbatim>\<open>===\<close> and \<^verbatim>\<open>!==\<close> of the source are the exact order and
  equality of the model. A mark of type \<^verbatim>\<open>number | null\<close> is a \<^typ>\<open>real option\<close>, with
  \<^term>\<open>None\<close> for \<^verbatim>\<open>null\<close>.
\<close>

record SkaterScores =
  name :: string
  aScores :: "real option list"
  bScores :: "real option list"

datatype TieBreakLevel = DirectComparison | BScoreSum | ComparisonAll | TotalScore

record HeadToHeadResult =
  opponent :: string
  won :: bool
  skaterVotes :: nat
  opponentVotes :: nat

text \<open>
  \<^verbatim>\<open>interface SkaterResult extends SkaterScores\<close>; the optional fields (\<^verbatim>\<open>?:\<close>) are
  options, \<^term>\<open>None\<close> for a field that was never assigned.
\<close>

record SkaterResult = SkaterScores +
  totalScore :: real
  rank :: nat
  majorityVictories :: real
  tieBreakLevel :: "TieBreakLevel option"
  tieBreakValue :: "real option"
  tieBreakInfo :: "(TieBreakLevel \<times> real) list option"
  headToHeadResults :: "HeadToHeadResult list option"

section \<open>Score normalizer\<close>

text \<open>\<^verbatim>\<open>xs[i] ?? 0\<close> on an array of \<^verbatim>\<open>number | null\<close>: an index past the end reads
  \<^verbatim>\<open>undefined\<close>, and both \<^verbatim>\<open>undefined\<close> and \<^verbatim>\<open>null\<close> become 0.\<close>

definition orZero :: "real option list \<Rightarrow> nat \<Rightarrow> real" where
  "orZero xs i = (if i < length xs then (case xs ! i of Some v \<Rightarrow> v | None \<Rightarrow> 0) else 0)"

text \<open>\<^verbatim>\<open>totals[i] ?? 0\<close> on an array of numbers.\<close>

definition totalOrZero :: "real list \<Rightarrow> nat \<Rightarrow> real" where
  "totalOrZero ts i = (if i < length ts then ts ! i else 0)"

text \<open>\<^verbatim>\<open>xs.filter(s => s !== null).length\<close>\<close>

definition countNonNull :: "real option list \<Rightarrow> nat" where
  "countNonNull xs = length (filter (\<lambda>s. s \<noteq> None) xs)"

definition calculateJudgeTotals :: "'a SkaterScores_scheme \<Rightarrow> real list" where
  "calculateJudgeTotals skater =
     (let numJudges = max (countNonNull (aScores skater)) (countNonNull (bScores skater))
      in map (\<lambda>i. orZero (aScores skater) i + orZero (bScores skater) i) [0..<numJudges])"

definition calculateTotalScore :: "'a SkaterScores_scheme \<Rightarrow> real" where
  "calculateTotalScore skater = foldl (\<lambda>sum total. sum + total) 0 (calculateJudgeTotals skater)"

text \<open>\<^verbatim>\<open>Math.round(num * 10) / 10\<close>; \<^verbatim>\<open>Math.round\<close> rounds a half up.\<close>

definition roundToOneDecimal :: "real \<Rightarrow> real" where
  "roundToOneDecimal num = of_int \<lfloor>num * 10 + 1 / 2\<rfloor> / 10"

section \<open>Pairwise judge comparator\<close>

definition compareSkatersByJudge :: "real \<Rightarrow> real \<Rightarrow> real \<Rightarrow> real \<Rightarrow> real" where
  "compareSkatersByJudge skater1Total skater1BScore skater2Total skater2BScore =
     (if skater1Total > skater2Total then 1
      else if skater2Total > skater1Total then 0
      else if skater1BScore > skater2BScore then 1
      else if skater2BScore > skater1BScore then 0
      else 1 / 2)"

definition pairwiseComparison :: "'a SkaterScores_scheme \<Rightarrow> 'b SkaterScores_scheme \<Rightarrow> real" where
  "pairwiseComparison skater1 skater2 =
     (let totals1 = calculateJudgeTotals skater1;
          totals2 = calculateJudgeTotals skater2;
          numJudges = max (length totals1) (length totals2)
      in foldl (\<lambda>score i.
           score + compareSkatersByJudge (totalOrZero totals1 i) (orZero (bScores skater1) i)
                                         (totalOrZero totals2 i) (orZero (bScores skater2) i))
         0 [0..<numJudges])"

text \<open>The effective judge count of the specification: the larger of the two counts of
  non-missing marks.\<close>

definition effectiveCount :: "'a SkaterScores_scheme \<Rightarrow> nat" where
  "effectiveCount skater = max (countNonNull (aScores skater)) (countNonNull (bScores skater))"

section \<open>Head-to-head reporter\<close>

text \<open>The body of the loop over the judges in \<^verbatim>\<open>calculateHeadToHeadDetails\<close>: the
  counters \<^verbatim>\<open>(skaterVotes, opponentVotes)\<close> after judge \<^verbatim>\<open>judgeIdx\<close>.\<close>

definition countVote ::
  "'a SkaterScores_scheme \<Rightarrow> 'b SkaterScores_scheme \<Rightarrow> nat \<times> nat \<Rightarrow> nat \<Rightarrow> nat \<times> nat" where
  "countVote skater opp votes judgeIdx =
     (let skaterTotal = orZero (aScores skater) judgeIdx + orZero (bScores skater) judgeIdx;
          skaterBScore = orZero (bScores skater) judgeIdx;
          opponentTotal = orZero (aScores opp) judgeIdx + orZero (bScores opp) judgeIdx;
          opponentBScore = orZero (bScores opp) judgeIdx;
          result = compareSkatersByJudge skaterTotal skaterBScore opponentTotal opponentBScore
      in if result = 1 then (Suc (fst votes), snd votes)
         else if result = 0 then (fst votes, Suc (snd votes))
         else votes)"

text \<open>The body of the loop over the opponents: the entry pushed for one opponent
  (\<open>opp\<close> stands for the source's \<^verbatim>\<open>opponent\<close>, which is a field name here).\<close>

definition headToHeadEntry ::
  "'a SkaterScores_scheme \<Rightarrow> 'b SkaterScores_scheme \<Rightarrow> HeadToHeadResult" where
  "headToHeadEntry skater opp =
     (let numJudges = max (max (countNonNull (aScores skater)) (countNonNull (bScores skater)))
                          (max (countNonNull (aScores opp)) (countNonNull (bScores opp)));
          votes = foldl (countVote skater opp) (0, 0) [0..<numJudges]
      in \<lparr>opponent = name opp, won = (fst votes > snd votes),
          skaterVotes = fst votes, opponentVotes = snd votes\<rparr>)"

fun calculateHeadToHeadDetails ::
  "'a SkaterScores_scheme \<Rightarrow> SkaterScores list \<Rightarrow> HeadToHeadResult list" where
  "calculateHeadToHeadDetails skater [] = []"
| "calculateHeadToHeadDetails skater (opp # rest) =
     (if name opp = name skater then calculateHeadToHeadDetails skater rest
      else headToHeadEntry skater opp # calculateHeadToHeadDetails skater rest)"

section \<open>Majority evaluator\<close>

text \<open>
  A \<^verbatim>\<open>Map<string, number>\<close> is a map from names to numbers. \<^verbatim>\<open>m.get(k)!\<close> is
  \<^term>\<open>the (m k)\<close>: every key that the code looks up was set before (lemmas
  \<open>dom_calculateMajorityVictories\<close>, \<open>dom_tieBreakByDirectComparison\<close> and
  \<open>dom_tieBreakByComparisonWithAll\<close> below).
\<close>

type_synonym scoreMap = "string \<rightharpoonup> real"

text \<open>The first loop of the three accumulators: every name starts at 0.\<close>

definition initScores :: "'a SkaterScores_scheme list \<Rightarrow> scoreMap" where
  "initScores skaters = foldl (\<lambda>m skater. m(name skater \<mapsto> 0)) Map.empty skaters"

text \<open>The body of the pair loop of \<^verbatim>\<open>calculateMajorityVictories\<close>.\<close>

definition awardVictory :: "SkaterScores \<Rightarrow> SkaterScores \<Rightarrow> scoreMap \<Rightarrow> scoreMap" where
  "awardVictory skater1 skater2 victories =
     (let score1 = pairwiseComparison skater1 skater2;
          numJudges = max (length (calculateJudgeTotals skater1)) (length (calculateJudgeTotals skater2));
          score2 = real numJudges - score1
      in if score1 > score2 then victories(name skater1 \<mapsto> the (victories (name skater1)) + 1)
         else if score2 > score1 then victories(name skater2 \<mapsto> the (victories (name skater2)) + 1)
         else (let victories' = victories(name skater1 \<mapsto> the (victories (name skater1)) + 1 / 2)
               in victories'(name skater2 \<mapsto> the (victories' (name skater2)) + 1 / 2)))"

text \<open>The loops \<^verbatim>\<open>for i\<close> and \<^verbatim>\<open>for j = i + 1\<close>: \<open>skater1\<close> is \<^verbatim>\<open>skaters[i]\<close> and the list
  argument of the inner loop holds \<^verbatim>\<open>skaters[i + 1 ..]\<close>.\<close>

fun pairLoopInner ::
  "('s \<Rightarrow> 's \<Rightarrow> scoreMap \<Rightarrow> scoreMap) \<Rightarrow> 's \<Rightarrow> 's list \<Rightarrow> scoreMap \<Rightarrow> scoreMap" where
  "pairLoopInner body skater1 [] m = m"
| "pairLoopInner body skater1 (skater2 # rest) m = pairLoopInner body skater1 rest (body skater1 skater2 m)"

fun pairLoop :: "('s \<Rightarrow> 's \<Rightarrow> scoreMap \<Rightarrow> scoreMap) \<Rightarrow> 's list \<Rightarrow> scoreMap \<Rightarrow> scoreMap" where
  "pairLoop body [] m = m"
| "pairLoop body (skater1 # rest) m = pairLoop body rest (pairLoopInner body skater1 rest m)"

definition calculateMajorityVictories :: "SkaterScores list \<Rightarrow> scoreMap" where
  "calculateMajorityVictories skaters = pairLoop awardVictory skaters (initScores skaters)"

section \<open>Tie-break criteria\<close>

definition calculateBScoreSum :: "'a SkaterScores_scheme \<Rightarrow> real" where
  "calculateBScoreSum skater =
     foldl (\<lambda>sum score. sum + score) 0 (map the (filter (\<lambda>s. s \<noteq> None) (bScores skater)))"

text \<open>The body of the pair loop of \<^verbatim>\<open>tieBreakByDirectComparison\<close>.\<close>

definition addDirectComparison :: "SkaterScores \<Rightarrow> SkaterScores \<Rightarrow> scoreMap \<Rightarrow> scoreMap" where
  "addDirectComparison skater1 skater2 comparisonScores =
     (let score1 = pairwiseComparison skater1 skater2;
          numJudges = max (length (calculateJudgeTotals skater1)) (length (calculateJudgeTotals skater2));
          score2 = real numJudges - score1;
          comparisonScores' =
            comparisonScores(name skater1 \<mapsto> the (comparisonScores (name skater1)) + score1)
      in comparisonScores'(name skater2 \<mapsto> the (comparisonScores' (name skater2)) + score2))"

definition tieBreakByDirectComparison :: "SkaterScores list \<Rightarrow> scoreMap" where
  "tieBreakByDirectComparison tiedSkaters =
     pairLoop addDirectComparison tiedSkaters (initScores tiedSkaters)"

text \<open>The inner loop of \<^verbatim>\<open>tieBreakByComparisonWithAll\<close>: \<^verbatim>\<open>totalScore\<close> of one tied
  skater against all skaters, skipping every skater of the same name.\<close>

definition comparisonWithAllScore :: "SkaterScores \<Rightarrow> SkaterScores list \<Rightarrow> real" where
  "comparisonWithAllScore tiedSkater allSkaters =
     foldl (\<lambda>total otherSkater.
              if name tiedSkater = name otherSkater then total
              else total + pairwiseComparison tiedSkater otherSkater)
       0 allSkaters"

definition tieBreakByComparisonWithAll :: "SkaterScores list \<Rightarrow> SkaterScores list \<Rightarrow> scoreMap" where
  "tieBreakByComparisonWithAll tiedSkaters allSkaters =
     foldl (\<lambda>comparisonScores tiedSkater.
              comparisonScores(name tiedSkater \<mapsto> comparisonWithAllScore tiedSkater allSkaters))
       (initScores tiedSkaters) tiedSkaters"

section \<open>Sorting\<close>

text \<open>
  \<^verbatim>\<open>Array.prototype.sort(cmp)\<close> is stable, and \<^verbatim>\<open>cmp(x, y) > 0\<close> puts \<open>x\<close> after \<open>y\<close>.
  Both comparators of the source are consistent (they compare keys), so the result is the
  stable ordering, which insertion from the right computes.
\<close>

fun insertBy :: "('a \<Rightarrow> 'a \<Rightarrow> real) \<Rightarrow> 'a \<Rightarrow> 'a list \<Rightarrow> 'a list" where
  "insertBy cmp x [] = [x]"
| "insertBy cmp x (y # ys) = (if cmp x y > 0 then y # insertBy cmp x ys else x # y # ys)"

definition jsSort :: "('a \<Rightarrow> 'a \<Rightarrow> real) \<Rightarrow> 'a list \<Rightarrow> 'a list" where
  "jsSort cmp xs = foldr (insertBy cmp) xs []"

text \<open>The comparator of the first sort of \<^verbatim>\<open>calculateRankings\<close>.\<close>

definition compareMajorityVictories :: "SkaterResult \<Rightarrow> SkaterResult \<Rightarrow> real" where
  "compareMajorityVictories a b =
     (if majorityVictories b \<noteq> majorityVictories a then majorityVictories b - majorityVictories a
      else 0)"

text \<open>The comparator of \<^verbatim>\<open>tiedGroup.sort\<close>.\<close>

definition cascadeCompare ::
  "scoreMap \<Rightarrow> scoreMap \<Rightarrow> scoreMap \<Rightarrow> SkaterResult \<Rightarrow> SkaterResult \<Rightarrow> real" where
  "cascadeCompare comparisonScores bScoreSums comparisonWithAll a b =
     (let compA = the (comparisonScores (name a));
          compB = the (comparisonScores (name b))
      in if compB \<noteq> compA then compB - compA
         else (let bSumA = the (bScoreSums (name a));
                   bSumB = the (bScoreSums (name b))
               in if bSumB \<noteq> bSumA then bSumB - bSumA
                  else (let compAllA = the (comparisonWithAll (name a));
                            compAllB = the (comparisonWithAll (name b))
                        in if compAllB \<noteq> compAllA then compAllB - compAllA
                           else totalScore b - totalScore a)))"

section \<open>Tie-break summary and provenance\<close>

text \<open>
  The source has no \<^verbatim>\<open>throw\<close>. What can raise is a property read on \<^verbatim>\<open>undefined\<close>: the
  result of \<^verbatim>\<open>tiedGroup.find(...)\<close> and of an array read out of range. Both are branches of
  the model that return \<^term>\<open>Inl TypeError\<close>.
\<close>

datatype error = TypeError

text \<open>\<^verbatim>\<open>xs[i]\<close> for an integer \<open>i\<close>: \<^verbatim>\<open>undefined\<close> out of range.\<close>

definition arrayGet :: "'a list \<Rightarrow> int \<Rightarrow> 'a option" where
  "arrayGet xs i = (if 0 \<le> i \<and> i < int (length xs) then Some (xs ! nat i) else None)"

text \<open>\<^verbatim>\<open>new Set(xs)\<close>: the distinct elements in the order of their first insertion;
  \<^verbatim>\<open>.size\<close> is the length.\<close>

definition newSet :: "'a list \<Rightarrow> 'a list" where
  "newSet xs = rev (remdups (rev xs))"

text \<open>Lines 404--424: the summary fields of \<open>current\<close>, from its neighbour \<open>compareWith\<close>.\<close>

definition setTieBreakLevel ::
  "scoreMap \<Rightarrow> scoreMap \<Rightarrow> scoreMap \<Rightarrow> SkaterResult \<Rightarrow> SkaterResult \<Rightarrow> SkaterResult" where
  "setTieBreakLevel comparisonScores bScoreSums comparisonWithAll current compareWith =
     (let currentComp = the (comparisonScores (name current));
          compareComp = the (comparisonScores (name compareWith));
          currentBSum = the (bScoreSums (name current));
          compareBSum = the (bScoreSums (name compareWith));
          currentCompAll = the (comparisonWithAll (name current));
          compareCompAll = the (comparisonWithAll (name compareWith))
      in if currentComp \<noteq> compareComp
           then current\<lparr>tieBreakLevel := Some DirectComparison, tieBreakValue := Some currentComp\<rparr>
         else if currentBSum \<noteq> compareBSum
           then current\<lparr>tieBreakLevel := Some BScoreSum, tieBreakValue := Some currentBSum\<rparr>
         else if currentCompAll \<noteq> compareCompAll
           then current\<lparr>tieBreakLevel := Some ComparisonAll, tieBreakValue := Some currentCompAll\<rparr>
         else if totalScore current \<noteq> totalScore compareWith
           then current\<lparr>tieBreakLevel := Some TotalScore, tieBreakValue := Some (totalScore current)\<rparr>
         else current)"

text \<open>The loop that narrows \<^verbatim>\<open>stillTiedWith\<close> to the names whose score equals \<open>v\<close>.\<close>

fun narrowTied :: "SkaterResult list \<Rightarrow> scoreMap \<Rightarrow> real \<Rightarrow> string list \<Rightarrow> error + string list" where
  "narrowTied tiedGroup scores v [] = Inr []"
| "narrowTied tiedGroup scores v (n # ns) =
     (case find (\<lambda>s. name s = n) tiedGroup of
        None \<Rightarrow> Inl TypeError
      | Some other \<Rightarrow>
          (case narrowTied tiedGroup scores v ns of
             Inl e \<Rightarrow> Inl e
           | Inr kept \<Rightarrow> Inr (if scores (name other) = Some v then n # kept else kept)))"

text \<open>
  The four blocks that build \<^verbatim>\<open>tieBreakInfo\<close> (lines 433--513), last block first. Each takes
  the state that the blocks before it leave: the entries pushed so far, the flag
  \<^verbatim>\<open>reachedFirstDiff\<close> and, but for the last, \<^verbatim>\<open>stillTiedWith\<close>. The result is the array
  assigned to \<^verbatim>\<open>current.tieBreakInfo\<close>; a \<^verbatim>\<open>continue\<close> is the return of a block.
\<close>

definition infoTotalScore ::
  "TieBreakLevel option \<Rightarrow> bool \<Rightarrow> SkaterResult \<Rightarrow> (TieBreakLevel \<times> real) list \<Rightarrow> bool
     \<Rightarrow> (TieBreakLevel \<times> real) list" where
  "infoTotalScore firstDiffLevel hasTotalScoreVariation current info reachedFirstDiff =
     (let reached = (reachedFirstDiff \<or> firstDiffLevel = Some TotalScore)
      in if reached \<and> hasTotalScoreVariation then info @ [(TotalScore, totalScore current)]
         else info)"

definition infoCompAll ::
  "TieBreakLevel option \<Rightarrow> bool \<Rightarrow> bool \<Rightarrow> scoreMap \<Rightarrow> SkaterResult list \<Rightarrow> SkaterResult
     \<Rightarrow> (TieBreakLevel \<times> real) list \<Rightarrow> bool \<Rightarrow> string list
     \<Rightarrow> error + (TieBreakLevel \<times> real) list" where
  "infoCompAll firstDiffLevel hasCompAllVariation hasTotalScoreVariation comparisonWithAll
       tiedGroup current info reachedFirstDiff stillTiedWith =
     (let currentCompAll = the (comparisonWithAll (name current));
          reached = (reachedFirstDiff \<or> firstDiffLevel = Some ComparisonAll)
      in if reached \<and> hasCompAllVariation
         then (let info' = info @ [(ComparisonAll, currentCompAll)]
               in case narrowTied tiedGroup comparisonWithAll currentCompAll stillTiedWith of
                    Inl e \<Rightarrow> Inl e
                  | Inr stillTiedWith' \<Rightarrow>
                      if length stillTiedWith' = 0 then Inr info'
                      else Inr (infoTotalScore firstDiffLevel hasTotalScoreVariation current info' reached))
         else Inr (infoTotalScore firstDiffLevel hasTotalScoreVariation current info reached))"

definition infoBScoreSum ::
  "TieBreakLevel option \<Rightarrow> bool \<Rightarrow> bool \<Rightarrow> bool \<Rightarrow> scoreMap \<Rightarrow> scoreMap \<Rightarrow> SkaterResult list
     \<Rightarrow> SkaterResult \<Rightarrow> (TieBreakLevel \<times> real) list \<Rightarrow> bool \<Rightarrow> string list
     \<Rightarrow> error + (TieBreakLevel \<times> real) list" where
  "infoBScoreSum firstDiffLevel hasBScoreSumVariation hasCompAllVariation hasTotalScoreVariation
       bScoreSums comparisonWithAll tiedGroup current info reachedFirstDiff stillTiedWith =
     (let currentBSum = the (bScoreSums (name current));
          reached = (reachedFirstDiff \<or> firstDiffLevel = Some BScoreSum)
      in if reached \<and> hasBScoreSumVariation
         then (let info' = info @ [(BScoreSum, currentBSum)]
               in case narrowTied tiedGroup bScoreSums currentBSum stillTiedWith of
                    Inl e \<Rightarrow> Inl e
                  | Inr stillTiedWith' \<Rightarrow>
                      if length stillTiedWith' = 0 then Inr info'
                      else infoCompAll firstDiffLevel hasCompAllVariation hasTotalScoreVariation
                             comparisonWithAll tiedGroup current info' reached stillTiedWith')
         else infoCompAll firstDiffLevel hasCompAllVariation hasTotalScoreVariation
                comparisonWithAll tiedGroup current info reached stillTiedWith)"

definition buildTieBreakInfo ::
  "TieBreakLevel option \<Rightarrow> bool \<Rightarrow> bool \<Rightarrow> bool \<Rightarrow> bool \<Rightarrow> scoreMap \<Rightarrow> scoreMap \<Rightarrow> scoreMap
     \<Rightarrow> SkaterResult list \<Rightarrow> SkaterResult \<Rightarrow> error + (TieBreakLevel \<times> real) list" where
  "buildTieBreakInfo firstDiffLevel hasDirectCompVariation hasBScoreSumVariation hasCompAllVariation
       hasTotalScoreVariation comparisonScores bScoreSums comparisonWithAll tiedGroup current =
     (let currentComp = the (comparisonScores (name current));
          stillTiedWith = removeAll (name current) (newSet (map name tiedGroup));
          reached = (firstDiffLevel = Some DirectComparison)
      in if reached \<and> hasDirectCompVariation
         then (let info' = [(DirectComparison, currentComp)]
               in case narrowTied tiedGroup comparisonScores currentComp stillTiedWith of
                    Inl e \<Rightarrow> Inl e
                  | Inr stillTiedWith' \<Rightarrow>
                      if length stillTiedWith' = 0 then Inr info'
                      else infoBScoreSum firstDiffLevel hasBScoreSumVariation hasCompAllVariation
                             hasTotalScoreVariation bScoreSums comparisonWithAll tiedGroup current
                             info' reached stillTiedWith')
         else infoBScoreSum firstDiffLevel hasBScoreSumVariation hasCompAllVariation
                hasTotalScoreVariation bScoreSums comparisonWithAll tiedGroup current
                [] reached stillTiedWith)"

text \<open>One iteration of the loop over \<open>k\<close> (lines 400--514): \<^verbatim>\<open>tiedGroup[k]\<close> gets its summary
  fields and its \<^verbatim>\<open>tieBreakInfo\<close>.\<close>

definition annotateMember ::
  "TieBreakLevel option \<Rightarrow> bool \<Rightarrow> bool \<Rightarrow> bool \<Rightarrow> bool \<Rightarrow> scoreMap \<Rightarrow> scoreMap \<Rightarrow> scoreMap
     \<Rightarrow> SkaterResult list \<Rightarrow> nat \<Rightarrow> error + SkaterResult list" where
  "annotateMember firstDiffLevel hasDirectCompVariation hasBScoreSumVariation hasCompAllVariation
       hasTotalScoreVariation comparisonScores bScoreSums comparisonWithAll tiedGroup k =
     (case arrayGet tiedGroup (int k) of
        None \<Rightarrow> Inl TypeError
      | Some current \<Rightarrow>
          (case arrayGet tiedGroup (if int k < int (length tiedGroup) - 1 then int k + 1 else int k - 1) of
             None \<Rightarrow> Inl TypeError
           | Some compareWith \<Rightarrow>
               (let current' = setTieBreakLevel comparisonScores bScoreSums comparisonWithAll
                                 current compareWith
                in case buildTieBreakInfo firstDiffLevel hasDirectCompVariation hasBScoreSumVariation
                          hasCompAllVariation hasTotalScoreVariation comparisonScores bScoreSums
                          comparisonWithAll tiedGroup current' of
                     Inl e \<Rightarrow> Inl e
                   | Inr info \<Rightarrow> Inr (tiedGroup[k := current'\<lparr>tieBreakInfo := Some info\<rparr>]))))"

text \<open>The loop over \<open>k\<close>, stopped by the first error.\<close>

fun annotateLoop ::
  "(SkaterResult list \<Rightarrow> nat \<Rightarrow> error + SkaterResult list) \<Rightarrow> nat list \<Rightarrow> SkaterResult list
     \<Rightarrow> error + SkaterResult list" where
  "annotateLoop body [] tiedGroup = Inr tiedGroup"
| "annotateLoop body (k # ks) tiedGroup =
     (case body tiedGroup k of Inl e \<Rightarrow> Inl e | Inr tiedGroup' \<Rightarrow> annotateLoop body ks tiedGroup')"

section \<open>Rank assigner\<close>

text \<open>The \<^verbatim>\<open>else\<close> branch of the rank loop (lines 329--515): a group of equal majority
  victories is sorted by the cascade, ranked from \<open>currentRank\<close> and annotated.\<close>

definition resolveTiedGroup :: "SkaterScores list \<Rightarrow> nat \<Rightarrow> SkaterResult list \<Rightarrow> error + SkaterResult list" where
  "resolveTiedGroup skaters currentRank tiedGroup =
     (let tiedSkaters = map SkaterScores.truncate tiedGroup;
          comparisonScores = tieBreakByDirectComparison tiedSkaters;
          bScoreSums = foldl (\<lambda>m skater. m(name skater \<mapsto> calculateBScoreSum skater)) Map.empty tiedSkaters;
          comparisonWithAll = tieBreakByComparisonWithAll tiedSkaters skaters;
          sortedGroup = jsSort (cascadeCompare comparisonScores bScoreSums comparisonWithAll) tiedGroup;
          ranked = map (\<lambda>(k, s). s\<lparr>rank := currentRank + k\<rparr>) (enumerate 0 sortedGroup)
      in if length ranked > 1
         then (let allDirectComp = map (\<lambda>s. the (comparisonScores (name s))) ranked;
                   allBScoreSum = map (\<lambda>s. the (bScoreSums (name s))) ranked;
                   allCompAll = map (\<lambda>s. the (comparisonWithAll (name s))) ranked;
                   allTotalScore = map totalScore ranked;
                   hasDirectCompVariation = (length (newSet allDirectComp) > 1);
                   hasBScoreSumVariation = (length (newSet allBScoreSum) > 1);
                   hasCompAllVariation = (length (newSet allCompAll) > 1);
                   hasTotalScoreVariation = (length (newSet allTotalScore) > 1);
                   firstDiffLevel =
                     (if hasDirectCompVariation then Some DirectComparison
                      else if hasBScoreSumVariation then Some BScoreSum
                      else if hasCompAllVariation then Some ComparisonAll
                      else if hasTotalScoreVariation then Some TotalScore
                      else None)
               in annotateLoop
                    (annotateMember firstDiffLevel hasDirectCompVariation hasBScoreSumVariation
                       hasCompAllVariation hasTotalScoreVariation comparisonScores bScoreSums
                       comparisonWithAll)
                    [0..<length ranked] ranked)
         else Inr ranked)"

text \<open>
  The rank loop (lines 314--520). The list argument is \<^verbatim>\<open>sorted[i ..]\<close>, the part not yet
  ranked; the entries before \<open>i\<close> are final, and the result of a step is written to
  \<^verbatim>\<open>sorted[i .. j)\<close>. \<open>tiedGroup\<close> is what the inner \<^verbatim>\<open>while\<close> collects, and the loop goes on
  at \<open>j\<close>, the first entry with other majority victories.
\<close>

function rankLoop :: "SkaterScores list \<Rightarrow> nat \<Rightarrow> SkaterResult list \<Rightarrow> error + SkaterResult list" where
  "rankLoop skaters currentRank [] = Inr []"
| "rankLoop skaters currentRank (x # xs) =
     (let currentMV = majorityVictories x;
          tiedGroup = takeWhile (\<lambda>s. majorityVictories s = currentMV) (x # xs);
          remaining = dropWhile (\<lambda>s. majorityVictories s = currentMV) (x # xs)
      in case (if length tiedGroup = 1 then Inr (tiedGroup[0 := (tiedGroup ! 0)\<lparr>rank := currentRank\<rparr>])
               else resolveTiedGroup skaters currentRank tiedGroup) of
           Inl e \<Rightarrow> Inl e
         | Inr ranked \<Rightarrow>
             (case rankLoop skaters (currentRank + length tiedGroup) remaining of
                Inl e \<Rightarrow> Inl e
              | Inr others \<Rightarrow> Inr (ranked @ others)))"
  by pat_completeness auto
termination
proof (relation "measure (\<lambda>(skaters, currentRank, sorted). length sorted)")
  show "wf (measure (\<lambda>(skaters, currentRank, sorted). length sorted))"
    by simp
next
  fix skaters :: "SkaterScores list" and currentRank :: nat and x :: SkaterResult
    and xs currentMV tiedGroup remaining
  assume "currentMV = majorityVictories x"
    and "remaining = dropWhile (\<lambda>s. majorityVictories s = currentMV) (x # xs)"
  then have "length remaining \<le> length xs"
    by (simp add: length_dropWhile_le)
  then show "((skaters, currentRank + length tiedGroup, remaining), skaters, currentRank, x # xs)
      \<in> measure (\<lambda>(skaters, currentRank, sorted). length sorted)"
    by simp
qed

text \<open>The record built for one skater (lines 281--290): the optional fields are not set.\<close>

definition initialResult :: "SkaterScores \<Rightarrow> SkaterResult" where
  "initialResult skater =
     \<lparr>name = name skater, aScores = aScores skater, bScores = bScores skater,
      totalScore = roundToOneDecimal (calculateTotalScore skater), rank = 0,
      majorityVictories = 0, tieBreakLevel = None, tieBreakValue = None, tieBreakInfo = None,
      headToHeadResults = None\<rparr>"

definition calculateRankings :: "SkaterScores list \<Rightarrow> error + SkaterResult list" where
  "calculateRankings skaters =
     (if length skaters = 0 then Inr []
      else (let results0 = map initialResult skaters;
                victories = calculateMajorityVictories skaters;
                results = map (\<lambda>result. result\<lparr>majorityVictories := the (victories (name result)),
                                  headToHeadResults := Some (calculateHeadToHeadDetails result skaters)\<rparr>)
                            results0;
                sorted = jsSort compareMajorityVictories results
            in rankLoop skaters 1 sorted))"

section \<open>Specification-side notions\<close>

text \<open>The comparator's result for judge \<open>i\<close> on the totals and artistic marks that the
  head-to-head reporter reads for the pair.\<close>

definition judgeResult :: "'a SkaterScores_scheme \<Rightarrow> 'b SkaterScores_scheme \<Rightarrow> nat \<Rightarrow> real" where
  "judgeResult X Y i =
     compareSkatersByJudge (orZero (aScores X) i + orZero (bScores X) i) (orZero (bScores X) i)
                           (orZero (aScores Y) i + orZero (bScores Y) i) (orZero (bScores Y) i)"

text \<open>The points of the specification for X in the pair with Y: 1 if the pair score of X is
  the greater, one half if the two are equal, 0 otherwise.\<close>

definition majorityPoints :: "'a SkaterScores_scheme \<Rightarrow> 'b SkaterScores_scheme \<Rightarrow> real" where
  "majorityPoints X Y =
     (if pairwiseComparison X Y > pairwiseComparison Y X then 1
      else if pairwiseComparison X Y = pairwiseComparison Y X then 1 / 2
      else 0)"

text \<open>A result without what the rank loop assigns: the rank and the tie-break fields.\<close>

definition competitorData :: "SkaterResult \<Rightarrow> SkaterResult" where
  "competitorData r = r\<lparr>rank := 0, tieBreakLevel := None, tieBreakValue := None, tieBreakInfo := None\<rparr>"

text \<open>The neighbour that the summary fields of member \<open>k\<close> of a group of \<open>n\<close> are taken from:
  the next member, and for the last member the one before it.\<close>

definition neighbourIndex :: "nat \<Rightarrow> nat \<Rightarrow> nat" where
  "neighbourIndex n k = (if k < n - 1 then k + 1 else k - 1)"
text \<open>Names for the values that \<open>resolveTiedGroup\<close> computes for a tied group: the three
  accumulators, the group in cascade order, and the group with its ranks.\<close>

definition groupComparisonScores :: "SkaterResult list \<Rightarrow> scoreMap" where
  "groupComparisonScores tiedGroup = tieBreakByDirectComparison (map SkaterScores.truncate tiedGroup)"

definition groupBScoreSums :: "SkaterResult list \<Rightarrow> scoreMap" where
  "groupBScoreSums tiedGroup =
     foldl (\<lambda>m skater. m(name skater \<mapsto> calculateBScoreSum skater)) Map.empty
       (map SkaterScores.truncate tiedGroup)"

definition groupComparisonWithAll :: "SkaterScores list \<Rightarrow> SkaterResult list \<Rightarrow> scoreMap" where
  "groupComparisonWithAll skaters tiedGroup =
     tieBreakByComparisonWithAll (map SkaterScores.truncate tiedGroup) skaters"

definition cascadeSorted :: "SkaterScores list \<Rightarrow> SkaterResult list \<Rightarrow> SkaterResult list" where
  "cascadeSorted skaters tiedGroup =
     jsSort (cascadeCompare (groupComparisonScores tiedGroup) (groupBScoreSums tiedGroup)
               (groupComparisonWithAll skaters tiedGroup)) tiedGroup"

definition rankedGroup :: "SkaterScores list \<Rightarrow> nat \<Rightarrow> SkaterResult list \<Rightarrow> SkaterResult list" where
  "rankedGroup skaters currentRank tiedGroup =
     map (\<lambda>(k, s). s\<lparr>rank := currentRank + k\<rparr>) (enumerate 0 (cascadeSorted skaters tiedGroup))"

text \<open>The results before the rank loop: \<open>scoredResults\<close> after the loop that sets the
  majority victories and the head-to-head lists (lines 281--297), \<open>sortedResults\<close> after the
  first sort.\<close>

definition scoredResults :: "SkaterScores list \<Rightarrow> SkaterResult list" where
  "scoredResults skaters =
     map (\<lambda>s. (initialResult s)\<lparr>majorityVictories := the (calculateMajorityVictories skaters (name s)),
                  headToHeadResults := Some (calculateHeadToHeadDetails s skaters)\<rparr>) skaters"

definition sortedResults :: "SkaterScores list \<Rightarrow> SkaterResult list" where
  "sortedResults skaters = jsSort compareMajorityVictories (scoredResults skaters)"

text \<open>The groups that the rank loop collects from a list: the maximal runs of equal
  majority victories.\<close>

function tiedGroups :: "SkaterResult list \<Rightarrow> SkaterResult list list" where
  "tiedGroups [] = []"
| "tiedGroups (x # xs) =
     takeWhile (\<lambda>s. majorityVictories s = majorityVictories x) (x # xs)
       # tiedGroups (dropWhile (\<lambda>s. majorityVictories s = majorityVictories x) (x # xs))"
  by pat_completeness auto
termination
  by (relation "measure length") (simp_all add: length_dropWhile_le less_Suc_eq_le)

text \<open>The four cascade values that the code holds for a member \<open>s\<close> of a tied group, in
  cascade order.\<close>

definition cascadeValues ::
  "SkaterScores list \<Rightarrow> SkaterResult list \<Rightarrow> SkaterResult \<Rightarrow> (TieBreakLevel \<times> real) list" where
  "cascadeValues skaters tiedGroup s =
     [(DirectComparison, the (groupComparisonScores tiedGroup (name s))),
      (BScoreSum, the (groupBScoreSums tiedGroup (name s))),
      (ComparisonAll, the (groupComparisonWithAll skaters tiedGroup (name s))),
      (TotalScore, totalScore s)]"


text \<open>
  The cascade criteria in the words of the specification, for a member \<open>X\<close> of a group
  \<open>G\<close> within the field \<open>U\<close>; the other competitors are those of another name. Level 1 is
  \<open>pairScoreSum G X\<close>, level 2 \<open>artisticSum X\<close>, level 3 \<open>pairScoreSum U X\<close> and level 4 the
  total score rounded to one decimal.
\<close>

definition pairScoreSum :: "'a SkaterScores_scheme list \<Rightarrow> 'b SkaterScores_scheme \<Rightarrow> real" where
  "pairScoreSum G X = (\<Sum>Y\<leftarrow>filter (\<lambda>Y. name Y \<noteq> name X) G. pairwiseComparison X Y)"

definition artisticSum :: "'a SkaterScores_scheme \<Rightarrow> real" where
  "artisticSum X = sum_list (map the (filter (\<lambda>s. s \<noteq> None) (bScores X)))"

definition roundedTotal :: "'a SkaterScores_scheme \<Rightarrow> real" where
  "roundedTotal X = roundToOneDecimal (sum_list (calculateJudgeTotals X))"

text \<open>Descending by the first component, within equal first components descending by the
  second, then by the third, then by the fourth.\<close>

definition lexDescending :: "real \<times> real \<times> real \<times> real \<Rightarrow> real \<times> real \<times> real \<times> real \<Rightarrow> bool" where
  "lexDescending a b =
     (case a of (a1, a2, a3, a4) \<Rightarrow> case b of (b1, b2, b3, b4) \<Rightarrow>
        a1 > b1 \<or> a1 = b1 \<and> (a2 > b2 \<or> a2 = b2 \<and> (a3 > b3 \<or> a3 = b3 \<and> a4 \<ge> b4)))"

definition cascadePrecedes ::
  "SkaterResult list \<Rightarrow> SkaterScores list \<Rightarrow> SkaterResult \<Rightarrow> SkaterResult \<Rightarrow> bool" where
  "cascadePrecedes G U X Y =
     lexDescending (pairScoreSum G X, artisticSum X, pairScoreSum U X, roundedTotal X)
                   (pairScoreSum G Y, artisticSum Y, pairScoreSum U Y, roundedTotal Y)"

section \<open>Sample inputs\<close>

definition noMarksA :: SkaterScores where
  "noMarksA = \<lparr>name = ''A'', aScores = [None, None], bScores = []\<rparr>"

definition noMarksB :: SkaterScores where
  "noMarksB = \<lparr>name = ''B'', aScores = [], bScores = [None]\<rparr>"

definition sampleD :: SkaterScores where
  "sampleD = \<lparr>name = ''D'', aScores = [Some (7/5), Some (7/5), None], bScores = [None, None, None]\<rparr>"

definition tiedJudgeA :: SkaterScores where
  "tiedJudgeA = \<lparr>name = ''A'', aScores = [Some 3, Some 2], bScores = [Some 2, Some 2]\<rparr>"

definition tiedJudgeB :: SkaterScores where
  "tiedJudgeB = \<lparr>name = ''B'', aScores = [Some 3, Some 1], bScores = [Some 2, Some 2]\<rparr>"

text \<open>Two skaters of one name, and a third.\<close>

definition sameNameField :: "SkaterScores list" where
  "sameNameField =
     [\<lparr>name = ''A'', aScores = [Some 2], bScores = []\<rparr>,
      \<lparr>name = ''A'', aScores = [Some 2], bScores = []\<rparr>,
      \<lparr>name = ''B'', aScores = [Some 1], bScores = []\<rparr>]"


text \<open>Two skaters of one name who win one judge each; the first has the greater sum of
  artistic marks, the second the greater total.\<close>

definition sharedNameTie :: "SkaterScores list" where
  "sharedNameTie =
     [\<lparr>name = ''A'', aScores = [Some 3, Some 1], bScores = [Some 1, Some 0]\<rparr>,
      \<lparr>name = ''A'', aScores = [Some 1, Some 5], bScores = [Some 0, Some 0]\<rparr>]"

section \<open>Properties of the normalizer and the comparator\<close>

lemma length_calculateJudgeTotals:
  "length (calculateJudgeTotals skater) = effectiveCount skater"
  by (simp add: calculateJudgeTotals_def effectiveCount_def Let_def)

lemma foldl_add_sum_list:
  "foldl (\<lambda>acc i. acc + f i) a xs = a + sum_list (map f xs)"
  for a :: real
  by (induction xs arbitrary: a) (simp_all add: add.assoc)

lemma pairwiseComparison_sum:
  "pairwiseComparison s1 s2 =
     (\<Sum>i\<leftarrow>[0..<max (effectiveCount s1) (effectiveCount s2)].
        compareSkatersByJudge (totalOrZero (calculateJudgeTotals s1) i) (orZero (bScores s1) i)
                              (totalOrZero (calculateJudgeTotals s2) i) (orZero (bScores s2) i))"
  by (simp add: pairwiseComparison_def Let_def foldl_add_sum_list length_calculateJudgeTotals)

lemma compareSkatersByJudge_swap:
  "compareSkatersByJudge t1 b1 t2 b2 + compareSkatersByJudge t2 b2 t1 b1 = 1"
  by (simp add: compareSkatersByJudge_def)

lemma sum_list_const_one: "(\<Sum>i\<leftarrow>xs. (1::real)) = real (length xs)"
  by (induction xs) simp_all

text \<open>
  C2. The per-judge comparator returns 1 when A's total is greater, 0 when B's total is
  greater; on equal totals it returns 1 when A's artistic mark is greater, 0 when B's is
  greater; and it returns one half exactly when both the totals and the artistic marks are
  equal (exact equality, no tolerance).
\<close>

theorem compareSkatersByJudge_contract:
  "(totalA > totalB \<longrightarrow> compareSkatersByJudge totalA bScoreA totalB bScoreB = 1) \<and>
   (totalB > totalA \<longrightarrow> compareSkatersByJudge totalA bScoreA totalB bScoreB = 0) \<and>
   (totalA = totalB \<and> bScoreA > bScoreB \<longrightarrow>
      compareSkatersByJudge totalA bScoreA totalB bScoreB = 1) \<and>
   (totalA = totalB \<and> bScoreB > bScoreA \<longrightarrow>
      compareSkatersByJudge totalA bScoreA totalB bScoreB = 0) \<and>
   (compareSkatersByJudge totalA bScoreA totalB bScoreB = 1 / 2 \<longleftrightarrow>
      totalA = totalB \<and> bScoreA = bScoreB) \<and>
   compareSkatersByJudge totalA bScoreA totalB bScoreB \<in> {0, 1 / 2, 1}"
  by (auto simp: compareSkatersByJudge_def)

theorem compareSkatersByJudge_contract_witness:
  "compareSkatersByJudge 3 2 3 (3 / 2) = 1 \<and>
   compareSkatersByJudge 3 (3 / 2) 3 2 = 0 \<and>
   compareSkatersByJudge 4 1 3 2 = 1 \<and>
   compareSkatersByJudge 3 2 4 1 = 0 \<and>
   compareSkatersByJudge 5 2 5 2 = 1 / 2"
  using compareSkatersByJudge_contract [of 3 3 2 "3 / 2"]
        compareSkatersByJudge_contract [of 3 3 "3 / 2" 2]
        compareSkatersByJudge_contract [of 3 4 1 2]
        compareSkatersByJudge_contract [of 4 3 2 1]
        compareSkatersByJudge_contract [of 5 5 2 2]
  by simp

lemma pairwiseComparison_swap:
  "pairwiseComparison X Y + pairwiseComparison Y X = real (max (effectiveCount X) (effectiveCount Y))"
proof -
  let ?n = "max (effectiveCount X) (effectiveCount Y)"
  have "pairwiseComparison X Y + pairwiseComparison Y X = (\<Sum>i\<leftarrow>[0..<?n]. (1::real))"
    unfolding pairwiseComparison_sum [of X Y] pairwiseComparison_sum [of Y X]
    by (simp add: max.commute sum_list_addf [symmetric] compareSkatersByJudge_swap)
  then show ?thesis
    by (simp add: sum_list_const_one)
qed

lemma pairwiseComparison_complement:
  "real (max (length (calculateJudgeTotals X)) (length (calculateJudgeTotals Y))) - pairwiseComparison X Y
     = pairwiseComparison Y X"
  using pairwiseComparison_swap [of X Y] by (simp add: length_calculateJudgeTotals)

text \<open>
  C10. The pair scores of the two directions add up to the number of judges of the pair,
  the larger of the two effective judge counts, because the per-judge results of swapped
  arguments always add up to 1. So computing both directions independently gives the same
  values as taking one as the complement of the other.
\<close>

theorem pairwiseComparison_reciprocal:
  "pairwiseComparison X Y + pairwiseComparison Y X = real (max (effectiveCount X) (effectiveCount Y)) \<and>
   compareSkatersByJudge totalA bScoreA totalB bScoreB +
     compareSkatersByJudge totalB bScoreB totalA bScoreA = 1 \<and>
   real (max (length (calculateJudgeTotals X)) (length (calculateJudgeTotals Y))) - pairwiseComparison X Y
     = pairwiseComparison Y X"
  by (simp add: pairwiseComparison_swap compareSkatersByJudge_swap pairwiseComparison_complement)

lemma pairwiseComparison_no_judges:
  "effectiveCount X = 0 \<Longrightarrow> effectiveCount Y = 0 \<Longrightarrow> pairwiseComparison X Y = 0"
  by (simp add: pairwiseComparison_sum)

text \<open>
  C5. The normalizer returns as many per-judge totals as the effective judge count, the
  larger of the counts of non-missing technical and non-missing artistic marks; total \<open>i\<close>
  is the technical mark \<open>i\<close> or 0 plus the artistic mark \<open>i\<close> or 0. A competitor with no valid
  mark has no totals, and for two such competitors the pair score is 0 of 0 judges, the
  pair is a tie and each of the two is awarded one half.
\<close>

theorem calculateJudgeTotals_effective:
  "length (calculateJudgeTotals s) = max (countNonNull (aScores s)) (countNonNull (bScores s)) \<and>
   (\<forall>i < max (countNonNull (aScores s)) (countNonNull (bScores s)).
      calculateJudgeTotals s ! i = orZero (aScores s) i + orZero (bScores s) i) \<and>
   (countNonNull (aScores s) = 0 \<and> countNonNull (bScores s) = 0 \<longrightarrow> calculateJudgeTotals s = []) \<and>
   (countNonNull (aScores X) = 0 \<and> countNonNull (bScores X) = 0 \<and>
    countNonNull (aScores Y) = 0 \<and> countNonNull (bScores Y) = 0 \<longrightarrow>
      pairwiseComparison X Y = 0 \<and>
      real (max (length (calculateJudgeTotals X)) (length (calculateJudgeTotals Y))) - pairwiseComparison X Y = 0 \<and>
      awardVictory X Y victories =
        (victories(name X \<mapsto> the (victories (name X)) + 1 / 2))
          (name Y \<mapsto> the ((victories(name X \<mapsto> the (victories (name X)) + 1 / 2)) (name Y)) + 1 / 2) \<and>
      (name X \<noteq> name Y \<longrightarrow>
         calculateMajorityVictories [X, Y] (name X) = Some (1 / 2) \<and>
         calculateMajorityVictories [X, Y] (name Y) = Some (1 / 2)))"
proof -
  have len: "length (calculateJudgeTotals s) = max (countNonNull (aScores s)) (countNonNull (bScores s))"
    by (simp add: calculateJudgeTotals_def Let_def)
  have nth: "\<forall>i < max (countNonNull (aScores s)) (countNonNull (bScores s)).
      calculateJudgeTotals s ! i = orZero (aScores s) i + orZero (bScores s) i"
    by (simp add: calculateJudgeTotals_def Let_def)
  have empty: "countNonNull (aScores s) = 0 \<and> countNonNull (bScores s) = 0 \<longrightarrow> calculateJudgeTotals s = []"
    by (simp add: calculateJudgeTotals_def Let_def)
  have pair: "pairwiseComparison X Y = 0 \<and>
      real (max (length (calculateJudgeTotals X)) (length (calculateJudgeTotals Y))) - pairwiseComparison X Y = 0 \<and>
      awardVictory X Y victories =
        (victories(name X \<mapsto> the (victories (name X)) + 1 / 2))
          (name Y \<mapsto> the ((victories(name X \<mapsto> the (victories (name X)) + 1 / 2)) (name Y)) + 1 / 2) \<and>
      (name X \<noteq> name Y \<longrightarrow>
         calculateMajorityVictories [X, Y] (name X) = Some (1 / 2) \<and>
         calculateMajorityVictories [X, Y] (name Y) = Some (1 / 2))"
    if z: "countNonNull (aScores X) = 0 \<and> countNonNull (bScores X) = 0 \<and>
           countNonNull (aScores Y) = 0 \<and> countNonNull (bScores Y) = 0"
  proof -
    from z have e: "effectiveCount X = 0" "effectiveCount Y = 0"
      by (simp_all add: effectiveCount_def)
    then have p: "pairwiseComparison X Y = 0"
      by (rule pairwiseComparison_no_judges)
    have l: "length (calculateJudgeTotals X) = 0" "length (calculateJudgeTotals Y) = 0"
      using e by (simp_all add: length_calculateJudgeTotals)
    have a: "awardVictory X Y victories =
        (victories(name X \<mapsto> the (victories (name X)) + 1 / 2))
          (name Y \<mapsto> the ((victories(name X \<mapsto> the (victories (name X)) + 1 / 2)) (name Y)) + 1 / 2)"
      for victories
      unfolding awardVictory_def Let_def using p l by simp
    have m: "calculateMajorityVictories [X, Y] (name X) = Some (1 / 2) \<and>
         calculateMajorityVictories [X, Y] (name Y) = Some (1 / 2)" if "name X \<noteq> name Y"
      using that by (simp add: calculateMajorityVictories_def initScores_def a)
    show ?thesis using p l a m by simp
  qed
  show ?thesis using len nth empty pair by blast
qed

theorem calculateJudgeTotals_effective_witness:
  "length (calculateJudgeTotals sampleD) = 2 \<and>
   calculateJudgeTotals sampleD ! 0 = 7 / 5 \<and>
   calculateJudgeTotals sampleD ! 1 = 7 / 5 \<and>
   calculateJudgeTotals noMarksA = [] \<and>
   pairwiseComparison noMarksA noMarksB = 0 \<and>
   calculateMajorityVictories [noMarksA, noMarksB] ''A'' = Some (1 / 2) \<and>
   calculateMajorityVictories [noMarksA, noMarksB] ''B'' = Some (1 / 2)"
proof -
  have c: "countNonNull (aScores sampleD) = 2" "countNonNull (bScores sampleD) = 0"
    by (simp_all add: sampleD_def countNonNull_def del: not_None_eq)
  have z: "countNonNull (aScores noMarksA) = 0 \<and> countNonNull (bScores noMarksA) = 0 \<and>
    countNonNull (aScores noMarksB) = 0 \<and> countNonNull (bScores noMarksB) = 0"
    by (simp add: noMarksA_def noMarksB_def countNonNull_def)
  have n: "name noMarksA = ''A''" "name noMarksB = ''B''"
    by (simp_all add: noMarksA_def noMarksB_def)
  have o: "orZero (aScores sampleD) 0 + orZero (bScores sampleD) 0 = 7 / 5"
    "orZero (aScores sampleD) 1 + orZero (bScores sampleD) 1 = 7 / 5"
    by (simp_all add: sampleD_def orZero_def)
  note th = calculateJudgeTotals_effective [of sampleD noMarksA noMarksB Map.empty]
  from th have "length (calculateJudgeTotals sampleD) = 2"
    using c by simp
  moreover from th have "calculateJudgeTotals sampleD ! 0 = 7 / 5" "calculateJudgeTotals sampleD ! 1 = 7 / 5"
    using c o by simp_all
  moreover have "calculateJudgeTotals noMarksA = [] \<and>
   pairwiseComparison noMarksA noMarksB = 0 \<and>
   calculateMajorityVictories [noMarksA, noMarksB] ''A'' = Some (1 / 2) \<and>
   calculateMajorityVictories [noMarksA, noMarksB] ''B'' = Some (1 / 2)"
    using z n calculateJudgeTotals_effective [of noMarksA noMarksA noMarksB Map.empty]
    by simp
  ultimately show ?thesis by simp
qed

lemma judgeResult_cases: "judgeResult X Y i = 1 \<or> judgeResult X Y i = 0 \<or> judgeResult X Y i = 1 / 2"
  by (simp add: judgeResult_def compareSkatersByJudge_def)

lemma judgeResult_swap:
  "judgeResult X Y i = 1 \<longleftrightarrow> judgeResult Y X i = 0"
  "judgeResult X Y i = 0 \<longleftrightarrow> judgeResult Y X i = 1"
  by (auto simp: judgeResult_def compareSkatersByJudge_def split: if_splits)

lemma countVote_judgeResult:
  "countVote X Y votes i =
     (if judgeResult X Y i = 1 then (Suc (fst votes), snd votes)
      else if judgeResult X Y i = 0 then (fst votes, Suc (snd votes))
      else votes)"
  by (simp add: countVote_def judgeResult_def Let_def)

lemma foldl_countVote:
  "foldl (countVote X Y) (a, b) js =
     (a + length (filter (\<lambda>i. judgeResult X Y i = 1) js),
      b + length (filter (\<lambda>i. judgeResult X Y i = 0) js))"
proof (induction js arbitrary: a b)
  case Nil
  show ?case by simp
next
  case (Cons j js)
  have step: "foldl (countVote X Y) (a, b) (j # js) =
      (if judgeResult X Y j = 1 then foldl (countVote X Y) (Suc a, b) js
       else if judgeResult X Y j = 0 then foldl (countVote X Y) (a, Suc b) js
       else foldl (countVote X Y) (a, b) js)"
    by (simp add: countVote_judgeResult [of X Y "(a, b)" j])
  show ?case
    unfolding step using judgeResult_cases [of X Y j]
    by (auto simp: Cons.IH)
qed

lemma headToHeadEntry_votes:
  "skaterVotes (headToHeadEntry X Y) =
     length (filter (\<lambda>i. judgeResult X Y i = 1) [0..<max (effectiveCount X) (effectiveCount Y)])"
  "opponentVotes (headToHeadEntry X Y) =
     length (filter (\<lambda>i. judgeResult X Y i = 0) [0..<max (effectiveCount X) (effectiveCount Y)])"
  "won (headToHeadEntry X Y) \<longleftrightarrow>
     skaterVotes (headToHeadEntry X Y) > opponentVotes (headToHeadEntry X Y)"
  "opponent (headToHeadEntry X Y) = name Y"
  by (simp_all add: headToHeadEntry_def Let_def foldl_countVote effectiveCount_def)

lemma calculateHeadToHeadDetails_map_filter:
  "calculateHeadToHeadDetails X skaters =
     map (headToHeadEntry X) (filter (\<lambda>Y. name Y \<noteq> name X) skaters)"
  by (induction skaters) simp_all

lemma three_way_count:
  assumes "\<And>i. f i = (1::real) \<or> f i = 0 \<or> f i = 1 / 2"
  shows "length (filter (\<lambda>i. f i = 1) js) + length (filter (\<lambda>i. f i = 0) js) +
         length (filter (\<lambda>i. f i = 1 / 2) js) = length js"
proof (induction js)
  case Nil
  show ?case by simp
next
  case (Cons j js)
  then show ?case using assms [of j] by auto
qed

text \<open>
  C6. A head-to-head list has one entry for every skater of another name, in input order.
  In the entry of X for opponent Y, \<open>skaterVotes\<close> (votesFor) is the number of judges for
  which the comparator returns 1, \<open>opponentVotes\<close> (votesAgainst) the number for which it
  returns 0; a judge for whom it returns one half counts for neither, so the two add up to
  the number of judges less the tied judges, which can be less than the number of judges;
  and \<open>won\<close> holds exactly when \<open>skaterVotes\<close> is strictly greater.
\<close>

theorem headToHead_tally:
  "calculateHeadToHeadDetails X skaters =
     map (headToHeadEntry X) (filter (\<lambda>Z. name Z \<noteq> name X) skaters) \<and>
   opponent (headToHeadEntry X Y) = name Y \<and>
   skaterVotes (headToHeadEntry X Y) =
     length (filter (\<lambda>i. judgeResult X Y i = 1) [0..<max (effectiveCount X) (effectiveCount Y)]) \<and>
   opponentVotes (headToHeadEntry X Y) =
     length (filter (\<lambda>i. judgeResult X Y i = 0) [0..<max (effectiveCount X) (effectiveCount Y)]) \<and>
   skaterVotes (headToHeadEntry X Y) + opponentVotes (headToHeadEntry X Y) +
     length (filter (\<lambda>i. judgeResult X Y i = 1 / 2) [0..<max (effectiveCount X) (effectiveCount Y)])
     = max (effectiveCount X) (effectiveCount Y) \<and>
   (won (headToHeadEntry X Y) \<longleftrightarrow>
      skaterVotes (headToHeadEntry X Y) > opponentVotes (headToHeadEntry X Y)) \<and>
   skaterVotes (headToHeadEntry tiedJudgeA tiedJudgeB) + opponentVotes (headToHeadEntry tiedJudgeA tiedJudgeB)
     < max (effectiveCount tiedJudgeA) (effectiveCount tiedJudgeB)"
proof -
  have less: "skaterVotes (headToHeadEntry tiedJudgeA tiedJudgeB) + opponentVotes (headToHeadEntry tiedJudgeA tiedJudgeB)
     < max (effectiveCount tiedJudgeA) (effectiveCount tiedJudgeB)"
    by (simp add: headToHeadEntry_votes effectiveCount_def countNonNull_def tiedJudgeA_def tiedJudgeB_def
        judgeResult_def compareSkatersByJudge_def orZero_def upt_conv_Cons
        del: not_None_eq)
  have total: "skaterVotes (headToHeadEntry X Y) + opponentVotes (headToHeadEntry X Y) +
     length (filter (\<lambda>i. judgeResult X Y i = 1 / 2) [0..<max (effectiveCount X) (effectiveCount Y)])
     = max (effectiveCount X) (effectiveCount Y)"
    using three_way_count [of "judgeResult X Y" "[0..<max (effectiveCount X) (effectiveCount Y)]"]
      judgeResult_cases [of X Y]
    by (simp add: headToHeadEntry_votes)
  show ?thesis
    using less total calculateHeadToHeadDetails_map_filter [of X skaters]
      headToHeadEntry_votes [of X Y]
    by simp
qed

theorem headToHead_tally_witness:
  "calculateHeadToHeadDetails tiedJudgeA [tiedJudgeA, tiedJudgeB] =
     [\<lparr>opponent = ''B'', won = True, skaterVotes = 1, opponentVotes = 0\<rparr>]"
proof -
  have f: "[i\<leftarrow>[0..<2]. judgeResult tiedJudgeA tiedJudgeB i = 1] = [1]"
    "[i\<leftarrow>[0..<2]. judgeResult tiedJudgeA tiedJudgeB i = 0] = []"
    by (simp_all add: tiedJudgeA_def tiedJudgeB_def judgeResult_def compareSkatersByJudge_def
        orZero_def upt_conv_Cons)
  have e: "max (effectiveCount tiedJudgeA) (effectiveCount tiedJudgeB) = 2"
    by (simp add: effectiveCount_def countNonNull_def tiedJudgeA_def tiedJudgeB_def del: not_None_eq)
  have n: "name tiedJudgeA = ''A''" "name tiedJudgeB = ''B''"
    by (simp_all add: tiedJudgeA_def tiedJudgeB_def)
  have "headToHeadEntry tiedJudgeA tiedJudgeB =
      \<lparr>opponent = ''B'', won = True, skaterVotes = 1, opponentVotes = 0\<rparr>"
    using headToHead_tally [of tiedJudgeA "[tiedJudgeA, tiedJudgeB]" tiedJudgeB] f e n
    by (intro HeadToHeadResult.equality) simp_all
  then show ?thesis
    using headToHead_tally [of tiedJudgeA "[tiedJudgeA, tiedJudgeB]" tiedJudgeB] n
    by simp
qed

text \<open>
  C7. The head-to-head entries are reciprocal: the \<open>skaterVotes\<close> (votesFor) in the entry of
  X for opponent Y is the \<open>opponentVotes\<close> (votesAgainst) in the entry of Y for opponent X,
  and the other way round. The entry of X for Y is the one that the list of X holds at the
  place of Y among the skaters of another name than X.
\<close>

theorem headToHead_reciprocity:
  "skaterVotes (headToHeadEntry X Y) = opponentVotes (headToHeadEntry Y X) \<and>
   opponentVotes (headToHeadEntry X Y) = skaterVotes (headToHeadEntry Y X) \<and>
   calculateHeadToHeadDetails X skaters =
     map (headToHeadEntry X) (filter (\<lambda>Z. name Z \<noteq> name X) skaters) \<and>
   calculateHeadToHeadDetails Y skaters =
     map (headToHeadEntry Y) (filter (\<lambda>Z. name Z \<noteq> name Y) skaters)"
  by (simp add: headToHeadEntry_votes judgeResult_swap(1) max.commute
      calculateHeadToHeadDetails_map_filter)

theorem headToHead_reciprocity_witness:
  "calculateHeadToHeadDetails tiedJudgeA [tiedJudgeA, tiedJudgeB] = [headToHeadEntry tiedJudgeA tiedJudgeB] \<and>
   calculateHeadToHeadDetails tiedJudgeB [tiedJudgeA, tiedJudgeB] = [headToHeadEntry tiedJudgeB tiedJudgeA] \<and>
   skaterVotes (headToHeadEntry tiedJudgeA tiedJudgeB) = opponentVotes (headToHeadEntry tiedJudgeB tiedJudgeA) \<and>
   opponentVotes (headToHeadEntry tiedJudgeA tiedJudgeB) = skaterVotes (headToHeadEntry tiedJudgeB tiedJudgeA)"
proof -
  have n: "name tiedJudgeA = ''A''" "name tiedJudgeB = ''B''"
    by (simp_all add: tiedJudgeA_def tiedJudgeB_def)
  note th = headToHead_reciprocity [of tiedJudgeA tiedJudgeB "[tiedJudgeA, tiedJudgeB]"]
  have lists: "calculateHeadToHeadDetails tiedJudgeA [tiedJudgeA, tiedJudgeB] = [headToHeadEntry tiedJudgeA tiedJudgeB] \<and>
   calculateHeadToHeadDetails tiedJudgeB [tiedJudgeA, tiedJudgeB] = [headToHeadEntry tiedJudgeB tiedJudgeA]"
    using th [THEN conjunct2, THEN conjunct2] n by simp
  show ?thesis
    using lists th [THEN conjunct1] th [THEN conjunct2, THEN conjunct1] by blast
qed

section \<open>Sorting by a comparator\<close>

lemma mset_insertBy: "mset (insertBy cmp x ys) = add_mset x (mset ys)"
  by (induction ys) simp_all

lemma set_insertBy: "set (insertBy cmp x ys) = insert x (set ys)"
  by (induction ys) auto

lemma length_insertBy: "length (insertBy cmp x ys) = Suc (length ys)"
  by (induction ys) simp_all

lemma mset_jsSort: "mset (jsSort cmp xs) = mset xs"
  unfolding jsSort_def by (induction xs) (simp_all add: mset_insertBy)

lemma set_jsSort: "set (jsSort cmp xs) = set xs"
  using mset_jsSort [of cmp xs] by (metis set_mset_mset)

lemma length_jsSort: "length (jsSort cmp xs) = length xs"
  using mset_jsSort [of cmp xs] by (metis size_mset)

lemma sorted_wrt_insertBy:
  assumes after: "\<And>a b. cmp a b > 0 \<Longrightarrow> R b a"
    and before: "\<And>a b. \<not> cmp a b > 0 \<Longrightarrow> R a b"
    and trans: "\<And>a b c. R a b \<Longrightarrow> R b c \<Longrightarrow> R a c"
    and sorted: "sorted_wrt R ys"
  shows "sorted_wrt R (insertBy cmp x ys)"
  using sorted
proof (induction ys)
  case Nil
  show ?case by simp
next
  case (Cons y ys)
  show ?case
  proof (cases "cmp x y > 0")
    case True
    then have "R y x" by (rule after)
    with Cons True show ?thesis
      by (auto simp: set_insertBy)
  next
    case False
    then have xy: "R x y" by (rule before)
    have "R x z" if "z \<in> set ys" for z
      using Cons.prems that xy trans by auto
    with Cons.prems False xy show ?thesis by auto
  qed
qed

lemma sorted_wrt_jsSort:
  assumes "\<And>a b. cmp a b > 0 \<Longrightarrow> R b a"
    and "\<And>a b. \<not> cmp a b > 0 \<Longrightarrow> R a b"
    and "\<And>a b c. R a b \<Longrightarrow> R b c \<Longrightarrow> R a c"
  shows "sorted_wrt R (jsSort cmp xs)"
  unfolding jsSort_def
proof (induction xs)
  case Nil
  show ?case by simp
next
  case (Cons x xs)
  show ?case
    using sorted_wrt_insertBy [of cmp R, OF assms Cons] by simp
qed

text \<open>Stability: the elements that compare equal to each other keep their input order.\<close>

lemma filter_insertBy_stable:
  assumes "\<And>y. P x \<Longrightarrow> P y \<Longrightarrow> \<not> cmp x y > 0"
  shows "filter P (insertBy cmp x ys) = (if P x then x # filter P ys else filter P ys)"
  using assms by (induction ys) auto

lemma filter_jsSort_stable:
  assumes "\<And>x y. P x \<Longrightarrow> P y \<Longrightarrow> \<not> cmp x y > 0"
  shows "filter P (jsSort cmp xs) = filter P xs"
  unfolding jsSort_def
  by (induction xs) (simp_all add: filter_insertBy_stable assms)

section \<open>The name-keyed accumulators\<close>

lemma dom_initScores_foldl:
  "dom (foldl (\<lambda>m skater. m(name skater \<mapsto> f skater)) m0 skaters) = dom m0 \<union> name ` set skaters"
  by (induction skaters arbitrary: m0) auto

lemma dom_initScores: "dom (initScores skaters) = name ` set skaters"
  by (simp add: initScores_def dom_initScores_foldl)

lemma fresh_name_iff: "name x \<notin> name ` set xs \<longleftrightarrow> (\<forall>y\<in>set xs. name y \<noteq> name x)"
  by (metis imageI image_iff)

lemma dom_pairLoopInner:
  assumes "\<And>a b m. name a \<in> dom m \<Longrightarrow> name b \<in> dom m \<Longrightarrow> dom (body a b m) = dom m"
    and "name x \<in> dom m" and "name ` set ys \<subseteq> dom m"
  shows "dom (pairLoopInner body x ys m) = dom m"
  using assms(2,3) by (induction ys arbitrary: m) (simp_all add: assms(1))

lemma dom_pairLoop:
  assumes "\<And>a b m. name a \<in> dom m \<Longrightarrow> name b \<in> dom m \<Longrightarrow> dom (body a b m) = dom m"
    and "name ` set xs \<subseteq> dom m"
  shows "dom (pairLoop body xs m) = dom m"
  using assms(2)
proof (induction xs arbitrary: m)
  case Nil
  show ?case by simp
next
  case (Cons x xs)
  have "dom (pairLoopInner body x xs m) = dom m"
    using Cons.prems by (intro dom_pairLoopInner [of body, OF assms(1)]) auto
  with Cons show ?case by simp
qed

lemma dom_awardVictory:
  "name a \<in> dom m \<Longrightarrow> name b \<in> dom m \<Longrightarrow> dom (awardVictory a b m) = dom m"
  by (auto simp: awardVictory_def Let_def)

lemma dom_addDirectComparison:
  "name a \<in> dom m \<Longrightarrow> name b \<in> dom m \<Longrightarrow> dom (addDirectComparison a b m) = dom m"
  by (auto simp: addDirectComparison_def Let_def)

lemma dom_calculateMajorityVictories:
  "dom (calculateMajorityVictories skaters) = name ` set skaters"
  unfolding calculateMajorityVictories_def
  by (subst dom_pairLoop [of awardVictory]) (simp_all add: dom_awardVictory dom_initScores)

lemma dom_tieBreakByDirectComparison:
  "dom (tieBreakByDirectComparison tiedSkaters) = name ` set tiedSkaters"
  unfolding tieBreakByDirectComparison_def
  by (subst dom_pairLoop [of addDirectComparison]) (simp_all add: dom_addDirectComparison dom_initScores)

lemma dom_tieBreakByComparisonWithAll:
  "dom (tieBreakByComparisonWithAll tiedSkaters allSkaters) = name ` set tiedSkaters"
  by (simp add: tieBreakByComparisonWithAll_def dom_initScores_foldl dom_initScores)

lemma initScores_value: "k \<in> name ` set skaters \<Longrightarrow> initScores skaters k = Some 0"
proof -
  have "foldl (\<lambda>m skater. m(name skater \<mapsto> 0::real)) m0 skaters k =
      (if k \<in> name ` set skaters then Some 0 else m0 k)" for m0
    by (induction skaters arbitrary: m0) auto
  then show "k \<in> name ` set skaters \<Longrightarrow> initScores skaters k = Some 0"
    by (simp add: initScores_def)
qed

text \<open>What the pair loop accumulates when the names are distinct: \<open>h a b\<close> is what the pair
  \<open>(a, b)\<close> or \<open>(b, a)\<close> adds for \<open>a\<close>.\<close>

lemma pairLoopInner_value:
  assumes body: "\<And>a b m k. name a \<noteq> name b \<Longrightarrow>
      the (body a b m k) = the (m k) + (if k = name a then h a b else 0) + (if k = name b then h b a else 0)"
    and fresh: "name x \<notin> name ` set ys"
  shows "the (pairLoopInner body x ys m k) =
     the (m k) + (if k = name x then (\<Sum>y\<leftarrow>ys. h x y) else 0) + (\<Sum>y\<leftarrow>filter (\<lambda>y. name y = k) ys. h y x)"
  using fresh
proof (induction ys arbitrary: m)
  case Nil
  show ?case by simp
next
  case (Cons y ys)
  have ne: "name x \<noteq> name y" and fresh': "name x \<notin> name ` set ys"
    using Cons.prems by (auto simp: fresh_name_iff)
  show ?case
    using Cons.IH [OF fresh', of "body x y m"] body [OF ne, of m k]
    by auto
qed

lemma pairLoop_value:
  fixes h :: "'a SkaterScores_scheme \<Rightarrow> 'a SkaterScores_scheme \<Rightarrow> real"
  assumes body: "\<And>a b m k. name a \<noteq> name b \<Longrightarrow>
      the (body a b m k) = the (m k) + (if k = name a then h a b else 0) + (if k = name b then h b a else 0)"
    and dist: "distinct (map name xs)"
  shows "the (pairLoop body xs m k) =
     the (m k) + (\<Sum>x\<leftarrow>filter (\<lambda>x. name x = k) xs. \<Sum>y\<leftarrow>filter (\<lambda>y. name y \<noteq> k) xs. h x y)"
  using dist
proof (induction xs arbitrary: m)
  case Nil
  show ?case by simp
next
  case (Cons x xs)
  have fresh: "name x \<notin> name ` set xs" and dist': "distinct (map name xs)"
    using Cons.prems by auto
  note inner = pairLoopInner_value [of body h x xs m k, OF body fresh]
  note outer = Cons.IH [OF dist', of "pairLoopInner body x xs m"]
  show ?case
  proof (cases "k = name x")
    case True
    have "\<forall>y\<in>set xs. name y \<noteq> name x"
      using fresh by (simp add: fresh_name_iff)
    then have none: "filter (\<lambda>y. name y = name x) xs = []"
      and all: "filter (\<lambda>y. name y \<noteq> name x) xs = xs"
      by (simp_all add: filter_empty_conv filter_id_conv)
    show ?thesis
      using True inner outer by (simp add: none all)
  next
    case False
    have "(\<Sum>a\<leftarrow>filter (\<lambda>y. name y = k) xs. h a x + (\<Sum>y\<leftarrow>filter (\<lambda>y. name y \<noteq> k) xs. h a y)) =
        (\<Sum>a\<leftarrow>filter (\<lambda>y. name y = k) xs. h a x) +
        (\<Sum>a\<leftarrow>filter (\<lambda>y. name y = k) xs. \<Sum>y\<leftarrow>filter (\<lambda>y. name y \<noteq> k) xs. h a y)"
      by (simp add: sum_list_addf)
    then show ?thesis
      using False inner outer by simp
  qed
qed

lemma filter_name_distinct:
  assumes "distinct (map name xs)" and "x \<in> set xs"
  shows "filter (\<lambda>y. name y = name x) xs = [x]"
  using assms
proof (induction xs)
  case Nil
  then show ?case by simp
next
  case (Cons a xs)
  show ?case
  proof (cases "a = x")
    case True
    have "\<forall>y\<in>set xs. name y \<noteq> name a"
      using Cons.prems by (simp add: fresh_name_iff)
    with True have "filter (\<lambda>y. name y = name x) xs = []"
      by (simp add: filter_empty_conv)
    with True show ?thesis by simp
  next
    case False
    then have "x \<in> set xs" using Cons.prems by simp
    moreover from this have "name a \<noteq> name x" using Cons.prems by (auto simp: fresh_name_iff)
    ultimately show ?thesis using Cons by simp
  qed
qed

lemma pairLoop_value_member:
  fixes h :: "'a SkaterScores_scheme \<Rightarrow> 'a SkaterScores_scheme \<Rightarrow> real"
  assumes body: "\<And>a b m k. name a \<noteq> name b \<Longrightarrow>
      the (body a b m k) = the (m k) + (if k = name a then h a b else 0) + (if k = name b then h b a else 0)"
    and dist: "distinct (map name xs)" and mem: "x \<in> set xs"
  shows "the (pairLoop body xs m (name x)) =
     the (m (name x)) + (\<Sum>y\<leftarrow>filter (\<lambda>y. name y \<noteq> name x) xs. h x y)"
  by (simp add: pairLoop_value [of body h xs m "name x", OF body dist] filter_name_distinct [OF dist mem])

section \<open>Majority victories\<close>

lemma majorityPoints_half: "\<exists>j::nat. majorityPoints X Y = real j / 2 \<and> j \<le> 2"
proof -
  have "majorityPoints X Y = real 2 / 2 \<or> majorityPoints X Y = real 1 / 2 \<or> majorityPoints X Y = real 0 / 2"
    by (simp add: majorityPoints_def)
  then show ?thesis
    by (metis le_refl one_le_numeral zero_le)
qed

lemma majorityPoints_swap: "majorityPoints X Y + majorityPoints Y X = 1"
  by (simp add: majorityPoints_def)

lemma awardVictory_value:
  assumes "name a \<noteq> name b"
  shows "the (awardVictory a b m k) =
     the (m k) + (if k = name a then majorityPoints a b else 0)
               + (if k = name b then majorityPoints b a else 0)"
  unfolding awardVictory_def Let_def pairwiseComparison_complement majorityPoints_def
  using assms by auto

lemma calculateMajorityVictories_value:
  assumes "distinct (map name skaters)" and "x \<in> set skaters"
  shows "calculateMajorityVictories skaters (name x) =
     Some (\<Sum>y\<leftarrow>filter (\<lambda>y. name y \<noteq> name x) skaters. majorityPoints x y)"
proof -
  have "name x \<in> dom (calculateMajorityVictories skaters)"
    using assms(2) by (simp add: dom_calculateMajorityVictories)
  then obtain v where v: "calculateMajorityVictories skaters (name x) = Some v"
    by blast
  have "the (calculateMajorityVictories skaters (name x)) =
      the (initScores skaters (name x)) + (\<Sum>y\<leftarrow>filter (\<lambda>y. name y \<noteq> name x) skaters. majorityPoints x y)"
    unfolding calculateMajorityVictories_def
    by (rule pairLoop_value_member [of awardVictory majorityPoints, OF awardVictory_value assms])
  then show ?thesis
    using v assms(2) by (simp add: initScores_value)
qed

lemma sum_list_halves:
  assumes "\<And>y. \<exists>j::nat. f y = real j / 2 \<and> j \<le> 2"
  shows "\<exists>j::nat. (\<Sum>y\<leftarrow>ys. f y) = real j / 2 \<and> j \<le> 2 * length ys"
proof (induction ys)
  case Nil
  show ?case by simp
next
  case (Cons y ys)
  from Cons obtain j where j: "(\<Sum>y\<leftarrow>ys. f y) = real j / 2" "j \<le> 2 * length ys"
    by blast
  from assms [of y] obtain i where i: "f y = real i / 2" "i \<le> 2"
    by blast
  have "(\<Sum>y\<leftarrow>y # ys. f y) = real (i + j) / 2 \<and> i + j \<le> 2 * length (y # ys)"
    using i j by (simp add: add_divide_distrib)
  then show ?case by blast
qed

lemma length_filter_other_names:
  assumes "distinct (map name xs)" and "x \<in> set xs"
  shows "length (filter (\<lambda>y. name y \<noteq> name x) xs) = length xs - 1"
proof -
  have "length (filter (\<lambda>y. name y = name x) xs) + length (filter (\<lambda>y. name y \<noteq> name x) xs) = length xs"
    using sum_length_filter_compl [of "\<lambda>y. name y = name x" xs] by simp
  then show ?thesis
    by (simp add: filter_name_distinct [OF assms])
qed

lemma pair_points_sum:
  fixes h :: "'a SkaterScores_scheme \<Rightarrow> 'a SkaterScores_scheme \<Rightarrow> real"
  assumes swap: "\<And>a b. h a b + h b a = 1" and dist: "distinct (map name xs)"
  shows "(\<Sum>x\<leftarrow>xs. \<Sum>y\<leftarrow>filter (\<lambda>y. name y \<noteq> name x) xs. h x y) =
     real (length xs) * (real (length xs) - 1) / 2"
  using dist
proof (induction xs)
  case Nil
  show ?case by simp
next
  case (Cons a xs)
  have others: "\<forall>y\<in>set xs. name y \<noteq> name a" and dist': "distinct (map name xs)"
    using Cons.prems by (simp_all add: fresh_name_iff)
  have first: "filter (\<lambda>y. name y \<noteq> name a) (a # xs) = xs"
    using others by (simp add: filter_id_conv)
  have rest: "(\<Sum>x\<leftarrow>xs. \<Sum>y\<leftarrow>filter (\<lambda>y. name y \<noteq> name x) (a # xs). h x y) =
      (\<Sum>x\<leftarrow>xs. h x a + (\<Sum>y\<leftarrow>filter (\<lambda>y. name y \<noteq> name x) xs. h x y))"
    using others by (intro arg_cong [where f = sum_list] map_cong) auto
  have "(\<Sum>x\<leftarrow>xs. h a x) + (\<Sum>x\<leftarrow>xs. h x a) = (\<Sum>x\<leftarrow>xs. (1::real))"
    by (simp add: sum_list_addf [symmetric] swap)
  then have pairs: "(\<Sum>x\<leftarrow>xs. h a x) + (\<Sum>x\<leftarrow>xs. h x a) = real (length xs)"
    by (simp add: sum_list_const_one)
  have "(\<Sum>x\<leftarrow>a # xs. \<Sum>y\<leftarrow>filter (\<lambda>y. name y \<noteq> name x) (a # xs). h x y) =
      (\<Sum>x\<leftarrow>xs. h a x) + (\<Sum>x\<leftarrow>xs. h x a) +
      (\<Sum>x\<leftarrow>xs. \<Sum>y\<leftarrow>filter (\<lambda>y. name y \<noteq> name x) xs. h x y)"
    unfolding list.map sum_list.Cons first rest by (simp add: sum_list_addf)
  also have "\<dots> = real (length xs) + real (length xs) * (real (length xs) - 1) / 2"
    using pairs Cons.IH [OF dist'] by simp
  also have "\<dots> = real (length (a # xs)) * (real (length (a # xs)) - 1) / 2"
    by (simp add: field_simps)
  finally show ?case .
qed

lemma sameNameField_value: "calculateMajorityVictories sameNameField ''A'' = Some 3"
  by (simp add: sameNameField_def calculateMajorityVictories_def initScores_def awardVictory_def
      pairwiseComparison_def calculateJudgeTotals_def countNonNull_def compareSkatersByJudge_def
      orZero_def totalOrZero_def Let_def del: not_None_eq)

lemma sameNameField_value_B: "calculateMajorityVictories sameNameField ''B'' = Some 0"
  by (simp add: sameNameField_def calculateMajorityVictories_def initScores_def awardVictory_def
      pairwiseComparison_def calculateJudgeTotals_def countNonNull_def compareSkatersByJudge_def
      orZero_def totalOrZero_def Let_def del: not_None_eq)

text \<open>
  C3. The claim fails on the code where two skaters share a name, because the accumulator
  of \<open>calculateMajorityVictories\<close> is keyed by name and the two share one entry. At the
  input of two skaters named A, who tie each other and both beat B, the value of each A is
  3, above \<open>n - 1 = 2\<close>, and the values of the three skaters add up to 6, not to
  \<open>n (n - 1) / 2 = 3\<close>; the returned results carry these values.
\<close>

theorem majorityVictories_shared_name:
  "length sameNameField = 3 \<and>
   map name sameNameField = [''A'', ''A'', ''B''] \<and>
   calculateMajorityVictories sameNameField ''A'' = Some 3 \<and>
   calculateMajorityVictories sameNameField ''B'' = Some 0 \<and>
   (\<Sum>s\<leftarrow>sameNameField. the (calculateMajorityVictories sameNameField (name s))) = 6 \<and>
   (\<exists>res. calculateRankings sameNameField = Inr res \<and> map majorityVictories res = [3, 3, 0])"
proof -
  have names: "length sameNameField = 3" "map name sameNameField = [''A'', ''A'', ''B'']"
    by (simp_all add: sameNameField_def)
  have "(\<Sum>s\<leftarrow>sameNameField. the (calculateMajorityVictories sameNameField (name s))) =
      (\<Sum>k\<leftarrow>map name sameNameField. the (calculateMajorityVictories sameNameField k))"
    by (simp add: comp_def)
  also have "\<dots> = 6"
    unfolding names(2) by (simp add: sameNameField_value sameNameField_value_B)
  finally have total: "(\<Sum>s\<leftarrow>sameNameField. the (calculateMajorityVictories sameNameField (name s))) = 6" .
  have "calculateRankings sameNameField =
      Inr [\<lparr>name = ''A'', aScores = [Some 2], bScores = [], totalScore = 2, rank = 1,
             majorityVictories = 3, tieBreakLevel = None, tieBreakValue = None,
             tieBreakInfo = Some [],
             headToHeadResults = Some [\<lparr>opponent = ''B'', won = True, skaterVotes = 1, opponentVotes = 0\<rparr>]\<rparr>,
           \<lparr>name = ''A'', aScores = [Some 2], bScores = [], totalScore = 2, rank = 2,
             majorityVictories = 3, tieBreakLevel = None, tieBreakValue = None,
             tieBreakInfo = Some [],
             headToHeadResults = Some [\<lparr>opponent = ''B'', won = True, skaterVotes = 1, opponentVotes = 0\<rparr>]\<rparr>,
           \<lparr>name = ''B'', aScores = [Some 1], bScores = [], totalScore = 1, rank = 3,
             majorityVictories = 0, tieBreakLevel = None, tieBreakValue = None,
             tieBreakInfo = None,
             headToHeadResults = Some [\<lparr>opponent = ''A'', won = False, skaterVotes = 0, opponentVotes = 1\<rparr>,
                                       \<lparr>opponent = ''A'', won = False, skaterVotes = 0, opponentVotes = 1\<rparr>]\<rparr>]"
    by code_simp
  then have res: "\<exists>res. calculateRankings sameNameField = Inr res \<and> map majorityVictories res = [3, 3, 0]"
    by simp
  show ?thesis
    using names sameNameField_value sameNameField_value_B total res by blast
qed

text \<open>What holds of the majority victories for every input: each value is a multiple of
  one half and not negative.\<close>

lemma pairLoopInner_invariant:
  assumes "\<And>a b m. a \<in> S \<Longrightarrow> b \<in> S \<Longrightarrow> Q m \<Longrightarrow> Q (body a b m)"
    and "x \<in> S" and "set ys \<subseteq> S" and "Q m"
  shows "Q (pairLoopInner body x ys m)"
  using assms(3,4) by (induction ys arbitrary: m) (simp_all add: assms(1,2))

lemma pairLoop_invariant:
  assumes "\<And>a b m. a \<in> S \<Longrightarrow> b \<in> S \<Longrightarrow> Q m \<Longrightarrow> Q (body a b m)"
    and "set xs \<subseteq> S" and "Q m"
  shows "Q (pairLoop body xs m)"
  using assms(2,3)
proof (induction xs arbitrary: m)
  case Nil
  then show ?case by simp
next
  case (Cons x xs)
  have "Q (pairLoopInner body x xs m)"
    using Cons.prems by (intro pairLoopInner_invariant [of S Q body, OF assms(1)]) simp_all
  then show ?case
    using Cons by simp
qed

lemma halves_update:
  assumes "\<forall>t\<in>S. \<exists>j::nat. m (name t) = Some (real j / 2)"
  shows "\<forall>t\<in>S. \<exists>j::nat. (m(k \<mapsto> real i / 2)) (name t) = Some (real j / 2)"
proof
  fix t
  assume t: "t \<in> S"
  show "\<exists>j::nat. (m(k \<mapsto> real i / 2)) (name t) = Some (real j / 2)"
  proof (cases "name t = k")
    case True
    then show ?thesis by (intro exI [of _ i]) simp
  next
    case False
    then show ?thesis using assms t by simp
  qed
qed

lemma awardVictory_cases:
  "awardVictory a b m = m(name a \<mapsto> the (m (name a)) + 1) \<or>
   awardVictory a b m = m(name b \<mapsto> the (m (name b)) + 1) \<or>
   awardVictory a b m =
     (m(name a \<mapsto> the (m (name a)) + 1 / 2))
       (name b \<mapsto> the ((m(name a \<mapsto> the (m (name a)) + 1 / 2)) (name b)) + 1 / 2)"
  unfolding awardVictory_def Let_def by (simp del: fun_upd_apply)

lemma halves_awardVictory:
  assumes a: "a \<in> S" and b: "b \<in> S"
    and q: "\<forall>t\<in>S. \<exists>j::nat. m (name t) = Some (real j / 2)"
  shows "\<forall>t\<in>S. \<exists>j::nat. awardVictory a b m (name t) = Some (real j / 2)"
proof -
  from a q obtain i :: nat where i: "m (name a) = Some (real i / 2)"
    by blast
  from b q obtain j :: nat where j: "m (name b) = Some (real j / 2)"
    by blast
  have e1: "the (m (name a)) + 1 = real (i + 2) / 2"
    unfolding i option.sel by (simp add: add_divide_distrib)
  have e2: "the (m (name b)) + 1 = real (j + 2) / 2"
    unfolding j option.sel by (simp add: add_divide_distrib)
  have e3: "the (m (name a)) + 1 / 2 = real (i + 1) / 2"
    unfolding i option.sel by (simp add: add_divide_distrib)
  let ?m = "m(name a \<mapsto> real (i + 1) / 2)"
  have q3: "\<forall>t\<in>S. \<exists>j::nat. ?m (name t) = Some (real j / 2)"
    using q by (rule halves_update)
  with b obtain j' :: nat where j': "?m (name b) = Some (real j' / 2)"
    by blast
  have e4: "the (?m (name b)) + 1 / 2 = real (j' + 1) / 2"
    unfolding j' option.sel by (simp add: add_divide_distrib)
  from awardVictory_cases [of a b m]
  consider "awardVictory a b m = m(name a \<mapsto> real (i + 2) / 2)"
    | "awardVictory a b m = m(name b \<mapsto> real (j + 2) / 2)"
    | "awardVictory a b m = ?m(name b \<mapsto> real (j' + 1) / 2)"
    unfolding e1 e2 e3 e4 by blast
  then show ?thesis
  proof cases
    case 1
    show ?thesis unfolding 1 using q by (rule halves_update)
  next
    case 2
    show ?thesis unfolding 2 using q by (rule halves_update)
  next
    case 3
    show ?thesis unfolding 3 using q3 by (rule halves_update)
  qed
qed

lemma majorityVictories_half_nonneg:
  assumes "s \<in> set skaters"
  shows "\<exists>j::nat. calculateMajorityVictories skaters (name s) = Some (real j / 2)"
proof -
  have init: "\<forall>t\<in>set skaters. \<exists>j::nat. initScores skaters (name t) = Some (real j / 2)"
  proof
    fix t
    assume "t \<in> set skaters"
    then have "initScores skaters (name t) = Some (real 0 / 2)"
      by (simp add: initScores_value)
    then show "\<exists>j::nat. initScores skaters (name t) = Some (real j / 2)" ..
  qed
  have "\<forall>t\<in>set skaters. \<exists>j::nat. calculateMajorityVictories skaters (name t) = Some (real j / 2)"
    unfolding calculateMajorityVictories_def
    by (rule pairLoop_invariant [of "set skaters"
          "\<lambda>m. \<forall>t\<in>set skaters. \<exists>j::nat. m (name t) = Some (real j / 2)" awardVictory,
          OF halves_awardVictory subset_refl init])
  then show ?thesis
    using assms by blast
qed

text \<open>
  What holds where the names are pairwise distinct: the majority victories of every skater
  are a multiple of one half in \<open>[0, n - 1]\<close>, and those of all skaters add up to
  \<open>n (n - 1) / 2\<close>.
\<close>

lemma majorityVictories_range_sum:
  assumes "distinct (map name skaters)"
  shows "(\<forall>s\<in>set skaters. \<exists>j::nat.
            calculateMajorityVictories skaters (name s) = Some (real j / 2) \<and>
            0 \<le> real j / 2 \<and> real j / 2 \<le> real (length skaters) - 1) \<and>
         (\<Sum>s\<leftarrow>skaters. the (calculateMajorityVictories skaters (name s))) =
            real (length skaters) * (real (length skaters) - 1) / 2"
proof (intro conjI ballI)
  fix s
  assume s: "s \<in> set skaters"
  let ?others = "filter (\<lambda>y. name y \<noteq> name s) skaters"
  from sum_list_halves [of "majorityPoints s" ?others, OF majorityPoints_half]
  obtain j :: nat where j: "(\<Sum>y\<leftarrow>?others. majorityPoints s y) = real j / 2" "j \<le> 2 * length ?others"
    by blast
  have "length skaters \<ge> 1"
    using s by (cases skaters) simp_all
  then have "real j / 2 \<le> real (length skaters) - 1"
    using j(2) length_filter_other_names [OF assms s] by (simp add: of_nat_diff)
  then show "\<exists>j::nat. calculateMajorityVictories skaters (name s) = Some (real j / 2) \<and>
            0 \<le> real j / 2 \<and> real j / 2 \<le> real (length skaters) - 1"
    using calculateMajorityVictories_value [OF assms s] j(1) by auto
next
  have "(\<Sum>s\<leftarrow>skaters. the (calculateMajorityVictories skaters (name s))) =
      (\<Sum>s\<leftarrow>skaters. \<Sum>y\<leftarrow>filter (\<lambda>y. name y \<noteq> name s) skaters. majorityPoints s y)"
    by (intro arg_cong [where f = sum_list] map_cong)
       (simp_all add: calculateMajorityVictories_value [OF assms])
  then show "(\<Sum>s\<leftarrow>skaters. the (calculateMajorityVictories skaters (name s))) =
            real (length skaters) * (real (length skaters) - 1) / 2"
    using pair_points_sum [of majorityPoints skaters, OF majorityPoints_swap assms] by simp
qed

lemma majorityVictories_range_sum_example:
  "calculateMajorityVictories [tiedJudgeA, tiedJudgeB] ''A'' = Some 1 \<and>
   calculateMajorityVictories [tiedJudgeA, tiedJudgeB] ''B'' = Some 0 \<and>
   the (calculateMajorityVictories [tiedJudgeA, tiedJudgeB] ''A'') +
   the (calculateMajorityVictories [tiedJudgeA, tiedJudgeB] ''B'') = 1"
proof -
  have d: "distinct (map name [tiedJudgeA, tiedJudgeB])"
    by (simp add: tiedJudgeA_def tiedJudgeB_def)
  have n: "name tiedJudgeA = ''A''" "name tiedJudgeB = ''B''"
    by (simp_all add: tiedJudgeA_def tiedJudgeB_def)
  have v: "calculateMajorityVictories [tiedJudgeA, tiedJudgeB] ''A'' = Some 1"
    "calculateMajorityVictories [tiedJudgeA, tiedJudgeB] ''B'' = Some 0"
    by (simp_all add: tiedJudgeA_def tiedJudgeB_def calculateMajorityVictories_def initScores_def
        awardVictory_def pairwiseComparison_def calculateJudgeTotals_def countNonNull_def
        compareSkatersByJudge_def orZero_def totalOrZero_def Let_def upt_conv_Cons
        del: not_None_eq)
  show ?thesis
    using majorityVictories_range_sum [OF d] v n by simp
qed

section \<open>The rank loop never fails\<close>

lemma competitorData_fields:
  assumes "competitorData a = competitorData b"
  shows "name a = name b" "aScores a = aScores b" "bScores a = bScores b"
    "totalScore a = totalScore b" "majorityVictories a = majorityVictories b"
    "headToHeadResults a = headToHeadResults b"
proof -
  have "f (competitorData a) = f (competitorData b)" for f :: "SkaterResult \<Rightarrow> 'x"
    using assms by simp
  from this [of name] this [of aScores] this [of bScores] this [of totalScore]
    this [of majorityVictories] this [of headToHeadResults]
  show "name a = name b" "aScores a = aScores b" "bScores a = bScores b"
    "totalScore a = totalScore b" "majorityVictories a = majorityVictories b"
    "headToHeadResults a = headToHeadResults b"
    by (simp_all add: competitorData_def)
qed

lemma competitorData_updates [simp]:
  "competitorData (r\<lparr>rank := k\<rparr>) = competitorData r"
  "competitorData (r\<lparr>tieBreakInfo := i\<rparr>) = competitorData r"
  "competitorData (r\<lparr>tieBreakLevel := l\<rparr>) = competitorData r"
  "competitorData (r\<lparr>tieBreakValue := v\<rparr>) = competitorData r"
  by (simp_all add: competitorData_def)

lemma setTieBreakLevel_data [simp]:
  "competitorData (setTieBreakLevel cs bs ca current compareWith) = competitorData current"
  "rank (setTieBreakLevel cs bs ca current compareWith) = rank current"
  by (simp_all add: setTieBreakLevel_def Let_def)

lemma setTieBreakLevel_neighbour:
  assumes "competitorData nb' = competitorData nb"
  shows "setTieBreakLevel cs bs ca current nb' = setTieBreakLevel cs bs ca current nb"
  using competitorData_fields [OF assms] by (simp add: setTieBreakLevel_def)

lemma find_name_Some:
  assumes "n \<in> name ` set g"
  shows "\<exists>other. find (\<lambda>s. name s = n) g = Some other"
proof (cases "find (\<lambda>s. name s = n) g")
  case None
  then show ?thesis using assms by (auto simp: find_None_iff)
next
  case (Some other)
  then show ?thesis by simp
qed

lemma narrowTied_Inr:
  assumes "set ns \<subseteq> name ` set g"
  shows "\<exists>kept. narrowTied g scores v ns = Inr kept \<and> set kept \<subseteq> set ns"
  using assms
proof (induction ns)
  case Nil
  show ?case by simp
next
  case (Cons n ns)
  then obtain kept where kept: "narrowTied g scores v ns = Inr kept" "set kept \<subseteq> set ns"
    by auto
  from Cons.prems obtain other where "find (\<lambda>s. name s = n) g = Some other"
    using find_name_Some [of n g] by auto
  with kept show ?case by auto
qed

lemma infoCompAll_Inr:
  assumes "set still \<subseteq> name ` set g"
  shows "\<exists>info. infoCompAll fd hca hts ca g current info0 reached still = Inr info"
proof -
  obtain kept where "narrowTied g ca (the (ca (name current))) still = Inr kept"
    using narrowTied_Inr [OF assms] by blast
  then show ?thesis
    by (simp add: infoCompAll_def Let_def)
qed

lemma infoBScoreSum_Inr:
  assumes "set still \<subseteq> name ` set g"
  shows "\<exists>info. infoBScoreSum fd hbs hca hts bs ca g current info0 reached still = Inr info"
proof -
  obtain kept where kept: "narrowTied g bs (the (bs (name current))) still = Inr kept"
    "set kept \<subseteq> set still"
    using narrowTied_Inr [OF assms] by blast
  then have "set kept \<subseteq> name ` set g"
    using assms by blast
  then show ?thesis
    using kept(1) infoCompAll_Inr [OF assms] infoCompAll_Inr [of kept g]
    by (simp add: infoBScoreSum_def Let_def)
qed

lemma buildTieBreakInfo_Inr:
  "\<exists>info. buildTieBreakInfo fd hdc hbs hca hts cs bs ca g current = Inr info"
proof -
  let ?still = "removeAll (name current) (newSet (map name g))"
  have still: "set ?still \<subseteq> name ` set g"
    by (auto simp: newSet_def)
  obtain kept where kept: "narrowTied g cs (the (cs (name current))) ?still = Inr kept"
    "set kept \<subseteq> set ?still"
    using narrowTied_Inr [OF still] by blast
  then have "set kept \<subseteq> name ` set g"
    using still by blast
  then show ?thesis
    using kept(1) infoBScoreSum_Inr [OF still] infoBScoreSum_Inr [of kept g]
    by (simp add: buildTieBreakInfo_def Let_def)
qed

lemma annotateMember_Inr:
  assumes "k < length g" and "2 \<le> length g"
  shows "\<exists>info. annotateMember fd hdc hbs hca hts cs bs ca g k =
     Inr (g[k := (setTieBreakLevel cs bs ca (g ! k) (g ! neighbourIndex (length g) k))
                   \<lparr>tieBreakInfo := Some info\<rparr>])"
proof -
  have cur: "arrayGet g (int k) = Some (g ! k)"
    using assms by (simp add: arrayGet_def)
  have nb: "arrayGet g (if int k < int (length g) - 1 then int k + 1 else int k - 1) =
      Some (g ! neighbourIndex (length g) k)"
  proof (cases "k < length g - 1")
    case True
    then show ?thesis
      using assms by (simp add: arrayGet_def neighbourIndex_def nat_add_distrib)
  next
    case False
    then have "k = length g - 1" "1 \<le> k"
      using assms by auto
    then show ?thesis
      using assms False by (simp add: arrayGet_def neighbourIndex_def nat_diff_distrib numeral_2_eq_2)
  qed
  obtain info where "buildTieBreakInfo fd hdc hbs hca hts cs bs ca g
      (setTieBreakLevel cs bs ca (g ! k) (g ! neighbourIndex (length g) k)) = Inr info"
    using buildTieBreakInfo_Inr by blast
  then show ?thesis
    unfolding annotateMember_def cur nb by (intro exI [of _ info]) (simp add: Let_def)
qed

lemma annotateLoop_upt:
  assumes "2 \<le> length g0" and "length s = length g0" and "i \<le> length g0"
    and "map competitorData s = map competitorData g0"
    and "\<forall>j. i \<le> j \<and> j < length g0 \<longrightarrow> s ! j = g0 ! j"
  shows "\<exists>s'. annotateLoop (annotateMember fd hdc hbs hca hts cs bs ca) [i..<length g0] s = Inr s' \<and>
     length s' = length g0 \<and>
     (\<forall>j<i. s' ! j = s ! j) \<and>
     (\<forall>j. i \<le> j \<and> j < length g0 \<longrightarrow>
        (\<exists>info. s' ! j = (setTieBreakLevel cs bs ca (g0 ! j) (g0 ! neighbourIndex (length g0) j))
                            \<lparr>tieBreakInfo := Some info\<rparr>))"
  using assms(2-)
proof (induction "length g0 - i" arbitrary: i s)
  case 0
  then have "i = length g0" by simp
  then show ?case using "0.prems" by auto
next
  case (Suc d)
  then have i: "i < length g0" by simp
  let ?n = "neighbourIndex (length g0) i"
  have n: "?n < length g0"
    using i assms(1) by (auto simp: neighbourIndex_def)
  have same: "competitorData (s ! j) = competitorData (g0 ! j)" if "j < length g0" for j
    using Suc.prems(3) Suc.prems(1) that by (metis nth_map)
  obtain info where step: "annotateMember fd hdc hbs hca hts cs bs ca s i =
      Inr (s[i := (setTieBreakLevel cs bs ca (s ! i) (s ! neighbourIndex (length s) i))
                    \<lparr>tieBreakInfo := Some info\<rparr>])"
    using annotateMember_Inr [of i s] i assms(1) Suc.prems(1) by fastforce
  let ?e = "(setTieBreakLevel cs bs ca (g0 ! i) (g0 ! ?n))\<lparr>tieBreakInfo := Some info\<rparr>"
  have e: "(setTieBreakLevel cs bs ca (s ! i) (s ! neighbourIndex (length s) i))\<lparr>tieBreakInfo := Some info\<rparr> = ?e"
    using Suc.prems(4) i setTieBreakLevel_neighbour [OF same [OF n]] Suc.prems(1) by simp
  let ?s = "s[i := ?e]"
  have len: "length ?s = length g0" using Suc.prems(1) by simp
  have "map competitorData ?s = (map competitorData g0)[i := map competitorData g0 ! i]"
    using Suc.prems(3) i by (simp add: map_update)
  then have data: "map competitorData ?s = map competitorData g0"
    by simp
  have later: "\<forall>j. Suc i \<le> j \<and> j < length g0 \<longrightarrow> ?s ! j = g0 ! j"
    using Suc.prems(4) by simp
  have d: "d = length g0 - Suc i" using Suc.hyps(2) by simp
  from Suc.hyps(1) [OF d len _ data later] i
  obtain s' where s': "annotateLoop (annotateMember fd hdc hbs hca hts cs bs ca) [Suc i..<length g0] ?s = Inr s'"
    "length s' = length g0" "\<forall>j<Suc i. s' ! j = ?s ! j"
    "\<forall>j. Suc i \<le> j \<and> j < length g0 \<longrightarrow>
        (\<exists>info. s' ! j = (setTieBreakLevel cs bs ca (g0 ! j) (g0 ! neighbourIndex (length g0) j))
                            \<lparr>tieBreakInfo := Some info\<rparr>)"
    by auto
  have run: "annotateLoop (annotateMember fd hdc hbs hca hts cs bs ca) [i..<length g0] s = Inr s'"
    using i step e s'(1) by (simp add: upt_conv_Cons)
  have before: "\<forall>j<i. s' ! j = s ! j"
    using s'(3) by simp
  have at: "s' ! i = ?e"
    using s'(3) i Suc.prems(1) by simp
  have "\<exists>info. s' ! j = (setTieBreakLevel cs bs ca (g0 ! j) (g0 ! neighbourIndex (length g0) j))
                            \<lparr>tieBreakInfo := Some info\<rparr>"
    if "i \<le> j" "j < length g0" for j
  proof (cases "j = i")
    case True
    then show ?thesis using at by blast
  next
    case False
    then show ?thesis using that s'(4) by simp
  qed
  then show ?case
    using run s'(2) before by blast
qed
lemma length_rankedGroup: "length (rankedGroup skaters cr g) = length g"
  by (simp add: rankedGroup_def cascadeSorted_def length_jsSort)

lemma nth_rankedGroup:
  "k < length g \<Longrightarrow> rankedGroup skaters cr g ! k = (cascadeSorted skaters g ! k)\<lparr>rank := cr + k\<rparr>"
  by (simp add: rankedGroup_def cascadeSorted_def length_jsSort nth_enumerate_eq)

lemma resolveTiedGroup_unfold:
  "\<exists>fd hdc hbs hca hts. resolveTiedGroup skaters cr g =
     (if length (rankedGroup skaters cr g) > 1
      then annotateLoop (annotateMember fd hdc hbs hca hts (groupComparisonScores g)
             (groupBScoreSums g) (groupComparisonWithAll skaters g))
             [0..<length (rankedGroup skaters cr g)] (rankedGroup skaters cr g)
      else Inr (rankedGroup skaters cr g))"
  unfolding resolveTiedGroup_def Let_def rankedGroup_def cascadeSorted_def
    groupComparisonScores_def groupBScoreSums_def groupComparisonWithAll_def
  by (intro exI) (rule refl)

lemma resolveTiedGroup_result:
  assumes "length g \<noteq> 1"
  shows "\<exists>out. resolveTiedGroup skaters cr g = Inr out \<and> length out = length g \<and>
     (\<forall>k<length g. \<exists>info. out ! k =
        (setTieBreakLevel (groupComparisonScores g) (groupBScoreSums g) (groupComparisonWithAll skaters g)
           (rankedGroup skaters cr g ! k)
           (rankedGroup skaters cr g ! neighbourIndex (length g) k))\<lparr>tieBreakInfo := Some info\<rparr>)"
proof (cases "length g = 0")
  case True
  then show ?thesis
    by (simp add: resolveTiedGroup_def jsSort_def enumerate_eq_zip)
next
  case False
  let ?R = "rankedGroup skaters cr g"
  have g2: "2 \<le> length g"
    using False assms by arith
  then have len: "2 \<le> length ?R" "length ?R = length g"
    by (simp_all add: length_rankedGroup)
  obtain fd hdc hbs hca hts where unfold: "resolveTiedGroup skaters cr g =
      annotateLoop (annotateMember fd hdc hbs hca hts (groupComparisonScores g)
             (groupBScoreSums g) (groupComparisonWithAll skaters g)) [0..<length ?R] ?R"
    using resolveTiedGroup_unfold [of skaters cr g] len by auto
  from annotateLoop_upt [of ?R ?R 0 fd hdc hbs hca hts "groupComparisonScores g"
      "groupBScoreSums g" "groupComparisonWithAll skaters g", OF len(1)]
  show ?thesis
    unfolding unfold using len(2) by simp
qed

lemma resolveTiedGroup_data:
  assumes "length g \<noteq> 1" and "resolveTiedGroup skaters cr g = Inr out"
  shows "map competitorData out = map competitorData (cascadeSorted skaters g)"
    and "map rank out = [cr..<cr + length g]"
proof -
  from resolveTiedGroup_result [OF assms(1), of skaters cr] assms(2)
  have len: "length out = length g"
    and nth: "\<forall>k<length g. \<exists>info. out ! k =
        (setTieBreakLevel (groupComparisonScores g) (groupBScoreSums g) (groupComparisonWithAll skaters g)
           (rankedGroup skaters cr g ! k)
           (rankedGroup skaters cr g ! neighbourIndex (length g) k))\<lparr>tieBreakInfo := Some info\<rparr>"
    by auto
  have "competitorData (out ! k) = competitorData (cascadeSorted skaters g ! k) \<and> rank (out ! k) = cr + k"
    if "k < length g" for k
    using nth that by (auto simp: nth_rankedGroup)
  then have k: "\<forall>k<length g. competitorData (out ! k) = competitorData (cascadeSorted skaters g ! k)"
    "\<forall>k<length g. rank (out ! k) = cr + k"
    by simp_all
  have lens: "length (cascadeSorted skaters g) = length g"
    by (simp add: cascadeSorted_def length_jsSort)
  show "map competitorData out = map competitorData (cascadeSorted skaters g)"
    using len lens k(1) by (intro nth_equalityI) simp_all
  show "map rank out = [cr..<cr + length g]"
    using len k(2) by (intro nth_equalityI) simp_all
qed

lemma mset_cascadeSorted: "mset (cascadeSorted skaters g) = mset g"
  by (simp add: cascadeSorted_def mset_jsSort)

lemma rankLoop_result:
  "\<exists>res. rankLoop skaters cr xs = Inr res \<and> length res = length xs \<and>
     map rank res = [cr..<cr + length xs] \<and>
     map majorityVictories res = map majorityVictories xs \<and>
     mset (map competitorData res) = mset (map competitorData xs)"
proof (induction skaters cr xs rule: rankLoop.induct)
  case (1 skaters cr)
  show ?case by simp
next
  case (2 skaters cr x xs)
  define g where "g = takeWhile (\<lambda>s. majorityVictories s = majorityVictories x) (x # xs)"
  define r where "r = dropWhile (\<lambda>s. majorityVictories s = majorityVictories x) (x # xs)"
  have split: "g @ r = x # xs"
    unfolding g_def r_def by (rule takeWhile_dropWhile_id)
  have mvg: "\<forall>s\<in>set g. majorityVictories s = majorityVictories x"
    unfolding g_def using set_takeWhileD [of _ "\<lambda>s. majorityVictories s = majorityVictories x" "x # xs"]
    by blast
  obtain ranked where ranked:
    "(if length g = 1 then Inr (g[0 := (g ! 0)\<lparr>rank := cr\<rparr>])
      else resolveTiedGroup skaters cr g) = Inr ranked"
    "length ranked = length g" "map rank ranked = [cr..<cr + length g]"
    "mset (map competitorData ranked) = mset (map competitorData g)"
  proof (cases "length g = 1")
    case True
    then obtain y where y: "g = [y]"
      by (cases g) simp_all
    show ?thesis
      by (rule that [of "[y\<lparr>rank := cr\<rparr>]"]) (simp_all add: y)
  next
    case False
    from resolveTiedGroup_result [OF False, of skaters cr]
    obtain out where out: "resolveTiedGroup skaters cr g = Inr out" "length out = length g"
      by blast
    note data = resolveTiedGroup_data [OF False out(1)]
    have "mset (map competitorData out) = mset (map competitorData g)"
      unfolding data(1) mset_map mset_cascadeSorted ..
    then show ?thesis
      using that [of out] False out data(2) by simp
  qed
  have mvr: "map majorityVictories ranked = map majorityVictories g"
  proof -
    have "majorityVictories s = majorityVictories x" if "s \<in> set ranked" for s
    proof -
      have "competitorData s \<in> set (map competitorData ranked)"
        using that by simp
      then have "competitorData s \<in> set (map competitorData g)"
        using ranked(4) by (metis set_mset_mset)
      then obtain t where t: "t \<in> set g" "competitorData s = competitorData t"
        by auto
      show ?thesis
        using competitorData_fields(5) [OF t(2)] mvg t(1) by simp
    qed
    then have "map majorityVictories ranked = replicate (length ranked) (majorityVictories x)"
      by (simp add: map_replicate_const [symmetric] cong: map_cong)
    moreover have "map majorityVictories g = replicate (length g) (majorityVictories x)"
      using mvg by (simp add: map_replicate_const [symmetric] cong: map_cong)
    ultimately show ?thesis
      using ranked(2) by simp
  qed
  from "2.IH" [OF refl g_def r_def ranked(1)]
  obtain others where others: "rankLoop skaters (cr + length g) r = Inr others"
    "length others = length r" "map rank others = [cr + length g..<cr + length g + length r]"
    "map majorityVictories others = map majorityVictories r"
    "mset (map competitorData others) = mset (map competitorData r)"
    by blast
  have total: "length g + length r = length (x # xs)"
    using split by (metis length_append)
  have run: "rankLoop skaters cr (x # xs) = Inr (ranked @ others)"
    unfolding rankLoop.simps(2) [of skaters cr x xs] Let_def g_def [symmetric] r_def [symmetric]
    using ranked(1) others(1) by simp
  have e1: "[cr..<cr + length g + length r] = [cr..<cr + length g] @ [cr + length g..<cr + length g + length r]"
    by (rule upt_add_eq_append) simp
  have e2: "cr + length g + length r = cr + length (x # xs)"
    using total by simp
  have "map rank (ranked @ others) = [cr..<cr + length g + length r]"
    unfolding e1 using ranked(3) others(3) by simp
  then have ranks: "map rank (ranked @ others) = [cr..<cr + length (x # xs)]"
    unfolding e2 .
  have "map majorityVictories (ranked @ others) = map majorityVictories (g @ r)"
    using mvr others(4) by simp
  then have mvs: "map majorityVictories (ranked @ others) = map majorityVictories (x # xs)"
    unfolding split .
  have "mset (map competitorData (ranked @ others)) = mset (map competitorData (g @ r))"
    using ranked(4) others(5) by simp
  then have data: "mset (map competitorData (ranked @ others)) = mset (map competitorData (x # xs))"
    unfolding split .
  have "length (ranked @ others) = length (x # xs)"
    using ranked(2) others(2) total by simp
  then show ?case
    using run ranks mvs data by blast
qed

section \<open>The ranking\<close>

lemma sorted_compareMajorityVictories:
  "sorted_wrt (\<lambda>a b. majorityVictories a \<ge> majorityVictories b) (jsSort compareMajorityVictories xs)"
  by (rule sorted_wrt_jsSort) (auto simp: compareMajorityVictories_def split: if_splits)

lemma truncate_competitorData: "SkaterScores.truncate (competitorData r) = SkaterScores.truncate r"
  by (simp add: competitorData_def SkaterScores.truncate_def)

lemma truncate_initialResult:
  "SkaterScores.truncate ((initialResult s)\<lparr>majorityVictories := v, headToHeadResults := h\<rparr>) = s"
  by (simp add: initialResult_def SkaterScores.truncate_def)

lemma calculateHeadToHeadDetails_cong:
  assumes "name a = name b" and "aScores a = aScores b" and "bScores a = bScores b"
  shows "calculateHeadToHeadDetails a skaters = calculateHeadToHeadDetails b skaters"
proof -
  have "countVote a y = countVote b y" for y :: SkaterScores
    by (intro ext) (simp add: countVote_def assms)
  then have "headToHeadEntry a y = headToHeadEntry b y" for y :: SkaterScores
    by (simp add: headToHeadEntry_def assms)
  then show ?thesis
    by (simp add: calculateHeadToHeadDetails_map_filter assms(1))
qed

text \<open>The results before the sort: one per skater, in input order.\<close>

lemma calculateRankings_unfold:
  assumes "skaters \<noteq> []"
  shows "calculateRankings skaters =
     rankLoop skaters 1
       (jsSort compareMajorityVictories
          (map (\<lambda>s. (initialResult s)\<lparr>majorityVictories := the (calculateMajorityVictories skaters (name s)),
                        headToHeadResults := Some (calculateHeadToHeadDetails s skaters)\<rparr>) skaters))"
proof -
  have h: "calculateHeadToHeadDetails (initialResult s) skaters = calculateHeadToHeadDetails s skaters" for s
    by (rule calculateHeadToHeadDetails_cong) (simp_all add: initialResult_def)
  have n: "name (initialResult s) = name s" for s
    by (simp add: initialResult_def)
  show ?thesis
    using assms by (simp add: calculateRankings_def Let_def comp_def h n)
qed

lemma mset_map_jsSort: "mset (map f (jsSort cmp xs)) = mset (map f xs)"
  by (simp add: mset_jsSort)

lemma calculateRankings_result:
  "\<exists>res. calculateRankings skaters = Inr res \<and> length res = length skaters \<and>
     map rank res = [1..<Suc (length skaters)] \<and>
     sorted_wrt (\<lambda>a b. majorityVictories a \<ge> majorityVictories b) res \<and>
     mset (map SkaterScores.truncate res) = mset skaters \<and>
     (\<forall>r\<in>set res.
        majorityVictories r = the (calculateMajorityVictories skaters (name r)) \<and>
        headToHeadResults r = Some (calculateHeadToHeadDetails r skaters))"
proof (cases "skaters = []")
  case True
  then show ?thesis by (simp add: calculateRankings_def)
next
  case False
  define mk where "mk = (\<lambda>s. (initialResult s)\<lparr>majorityVictories := the (calculateMajorityVictories skaters (name s)),
                        headToHeadResults := Some (calculateHeadToHeadDetails s skaters)\<rparr>)"
  define results where "results = map mk skaters"
  define srt where "srt = jsSort compareMajorityVictories results"
  have mkt: "SkaterScores.truncate (mk s) = s" for s
    unfolding mk_def by (rule truncate_initialResult)
  have mk: "name (mk s) = name s" "aScores (mk s) = aScores s"
    "bScores (mk s) = bScores s"
    "majorityVictories (mk s) = the (calculateMajorityVictories skaters (name s))"
    "headToHeadResults (mk s) = Some (calculateHeadToHeadDetails s skaters)" for s
    by (simp_all add: mk_def initialResult_def)
  have run0: "calculateRankings skaters = rankLoop skaters 1 srt"
    unfolding srt_def results_def mk_def by (rule calculateRankings_unfold [OF False])
  from rankLoop_result [of skaters 1 srt]
  obtain res where res: "rankLoop skaters 1 srt = Inr res" "length res = length srt"
    "map rank res = [1..<1 + length srt]"
    "map majorityVictories res = map majorityVictories srt"
    "mset (map competitorData res) = mset (map competitorData srt)"
    by blast
  have len: "length srt = length skaters"
    by (simp add: srt_def results_def length_jsSort)
  have "sorted_wrt (\<ge>) (map majorityVictories srt)"
    unfolding srt_def using sorted_compareMajorityVictories [of results] by (simp add: sorted_wrt_map)
  then have "sorted_wrt (\<ge>) (map majorityVictories res)"
    unfolding res(4) .
  then have sorted: "sorted_wrt (\<lambda>a b. majorityVictories a \<ge> majorityVictories b) res"
    by (simp add: sorted_wrt_map)
  have "mset (map competitorData srt) = mset (map competitorData results)"
    unfolding srt_def by (rule mset_map_jsSort)
  with res(5) have data: "mset (map competitorData res) = mset (map competitorData results)"
    by (rule trans)
  have tr: "map SkaterScores.truncate xs = map SkaterScores.truncate (map competitorData xs)" for xs
    by (simp add: truncate_competitorData)
  have "mset (map SkaterScores.truncate res) = image_mset SkaterScores.truncate (mset (map competitorData res))"
    by (subst tr) (rule mset_map)
  also have "\<dots> = image_mset SkaterScores.truncate (mset (map competitorData results))"
    unfolding data ..
  also have "\<dots> = mset (map SkaterScores.truncate results)"
    by (subst tr [of results]) (rule mset_map [symmetric])
  also have "map SkaterScores.truncate results = skaters"
    unfolding results_def by (simp add: mkt comp_def)
  finally have perm: "mset (map SkaterScores.truncate res) = mset skaters" .
  have fields: "majorityVictories r = the (calculateMajorityVictories skaters (name r)) \<and>
        headToHeadResults r = Some (calculateHeadToHeadDetails r skaters)" if "r \<in> set res" for r
  proof -
    have "set (map competitorData res) = set (map competitorData results)"
      using data by (rule mset_eq_setD)
    moreover have "competitorData r \<in> set (map competitorData res)"
      using that by simp
    ultimately have "competitorData r \<in> competitorData ` set results"
      by simp
    then obtain t where t: "t \<in> set results" "competitorData r = competitorData t"
      by blast
    from t(1) obtain s where s: "t = mk s"
      unfolding results_def by auto
    note f = competitorData_fields [OF t(2)]
    have n: "name r = name s" "aScores r = aScores s" "bScores r = bScores s"
      using f(1,2,3) unfolding s by (simp_all add: mk)
    have h: "calculateHeadToHeadDetails r skaters = calculateHeadToHeadDetails s skaters"
      using n by (rule calculateHeadToHeadDetails_cong)
    have "majorityVictories r = the (calculateMajorityVictories skaters (name r))"
      using f(5) unfolding s mk n(1) .
    moreover have "headToHeadResults r = Some (calculateHeadToHeadDetails r skaters)"
      using f(6) unfolding s mk h .
    ultimately show ?thesis ..
  qed
  have run: "calculateRankings skaters = Inr res"
    unfolding run0 by (rule res(1))
  have l: "length res = length skaters"
    using res(2) len by simp
  have rk: "map rank res = [1..<Suc (length skaters)]"
    using res(3) len by simp
  show ?thesis
    by (intro exI [of _ res] conjI ballI run l rk sorted perm fields [THEN conjunct1] fields [THEN conjunct2])
qed

text \<open>
  C1. For every input list of \<open>n\<close> skaters, \<open>calculateRankings\<close> returns \<open>n\<close> results, one for
  every skater, whose ranks in the order of the collection are exactly \<open>1, \<dots>, n\<close>; and
  whenever a result has strictly more majority victories than another, its rank is
  strictly smaller.
\<close>

theorem calculateRankings_ranks:
  "\<exists>res. calculateRankings skaters = Inr res \<and> length res = length skaters \<and>
     map rank res = [1..<Suc (length skaters)] \<and>
     mset (map SkaterScores.truncate res) = mset skaters \<and>
     (\<forall>i<length res. \<forall>j<length res.
        majorityVictories (res ! i) > majorityVictories (res ! j) \<longrightarrow> rank (res ! i) < rank (res ! j))"
proof -
  from calculateRankings_result [of skaters]
  obtain res where res: "calculateRankings skaters = Inr res" "length res = length skaters"
    "map rank res = [1..<Suc (length skaters)]"
    "sorted_wrt (\<lambda>a b. majorityVictories a \<ge> majorityVictories b) res"
    "mset (map SkaterScores.truncate res) = mset skaters"
    by blast
  have rank: "rank (res ! i) = Suc i" if "i < length res" for i
  proof -
    have "rank (res ! i) = map rank res ! i"
      using that by simp
    also have "\<dots> = Suc i"
      unfolding res(3) using that res(2) by (simp del: upt_Suc)
    finally show ?thesis .
  qed
  have "rank (res ! i) < rank (res ! j)"
    if "i < length res" "j < length res" "majorityVictories (res ! i) > majorityVictories (res ! j)" for i j
  proof -
    have "\<not> j < i"
      using sorted_wrt_nth_less [OF res(4), of j i] that by auto
    moreover have "i \<noteq> j"
      using that(3) by auto
    ultimately have "i < j" by simp
    then show ?thesis
      using rank that by simp
  qed
  then show ?thesis
    using res(1,2,3,5) by blast
qed

theorem calculateRankings_ranks_witness:
  "\<exists>res. calculateRankings [tiedJudgeB, tiedJudgeA] = Inr res \<and> map rank res = [1, 2] \<and>
     map name res = [''A'', ''B''] \<and> map majorityVictories res = [1, 0]"
proof -
  have "calculateRankings [tiedJudgeB, tiedJudgeA] =
    Inr [\<lparr>name = ''A'', aScores = [Some 3, Some 2], bScores = [Some 2, Some 2],
           totalScore = 9, rank = 1, majorityVictories = 1, tieBreakLevel = None,
           tieBreakValue = None, tieBreakInfo = None,
           headToHeadResults = Some [\<lparr>opponent = ''B'', won = True, skaterVotes = 1, opponentVotes = 0\<rparr>]\<rparr>,
         \<lparr>name = ''B'', aScores = [Some 3, Some 1], bScores = [Some 2, Some 2],
           totalScore = 8, rank = 2, majorityVictories = 0, tieBreakLevel = None,
           tieBreakValue = None, tieBreakInfo = None,
           headToHeadResults = Some [\<lparr>opponent = ''A'', won = False, skaterVotes = 0, opponentVotes = 1\<rparr>]\<rparr>]"
    by code_simp
  then show ?thesis
    using calculateRankings_ranks [of "[tiedJudgeB, tiedJudgeA]"] by auto
qed

text \<open>
  C8. The ranking never raises: it returns a result for every input list. The empty list
  gives the empty collection. A single skater gives exactly one result, with 0 majority
  victories, rank 1, no tie-break field set and an empty head-to-head list.
\<close>

theorem calculateRankings_never_fails:
  "(\<exists>res. calculateRankings skaters = Inr res) \<and>
   calculateRankings [] = Inr [] \<and>
   calculateRankings [s] =
     Inr [\<lparr>name = name s, aScores = aScores s, bScores = bScores s,
           totalScore = roundToOneDecimal (calculateTotalScore s), rank = 1,
           majorityVictories = 0, tieBreakLevel = None, tieBreakValue = None,
           tieBreakInfo = None, headToHeadResults = Some []\<rparr>]"
proof -
  have total: "\<exists>res. calculateRankings skaters = Inr res"
    using calculateRankings_result [of skaters] by blast
  have empty: "calculateRankings [] = Inr []"
    by (simp add: calculateRankings_def)
  have single: "calculateRankings [s] =
     Inr [\<lparr>name = name s, aScores = aScores s, bScores = bScores s,
           totalScore = roundToOneDecimal (calculateTotalScore s), rank = 1,
           majorityVictories = 0, tieBreakLevel = None, tieBreakValue = None,
           tieBreakInfo = None, headToHeadResults = Some []\<rparr>]"
    by (simp add: calculateRankings_def Let_def initialResult_def calculateMajorityVictories_def
        initScores_def jsSort_def)
  show ?thesis
    using total empty single by blast
qed

theorem calculateRankings_never_fails_witness:
  "calculateRankings [sampleD] =
     Inr [\<lparr>name = ''D'', aScores = [Some (7 / 5), Some (7 / 5), None], bScores = [None, None, None],
           totalScore = 14 / 5, rank = 1, majorityVictories = 0, tieBreakLevel = None,
           tieBreakValue = None, tieBreakInfo = None, headToHeadResults = Some []\<rparr>]"
proof -
  have "roundToOneDecimal (calculateTotalScore sampleD) = 14 / 5"
    by code_simp
  then show ?thesis
    using calculateRankings_never_fails [of "[sampleD]" sampleD] by (simp add: sampleD_def)
qed

section \<open>The tied groups of a ranking\<close>

lemma calculateRankings_rankLoop:
  "skaters \<noteq> [] \<Longrightarrow> calculateRankings skaters = rankLoop skaters 1 (sortedResults skaters)"
  unfolding sortedResults_def scoredResults_def by (rule calculateRankings_unfold)

lemma concat_tiedGroups: "concat (tiedGroups xs) = xs"
  by (induction xs rule: tiedGroups.induct) simp_all

lemma tiedGroups_equal:
  "g \<in> set (tiedGroups xs) \<Longrightarrow> a \<in> set g \<Longrightarrow> b \<in> set g \<Longrightarrow>
     majorityVictories a = majorityVictories b"
proof (induction xs rule: tiedGroups.induct)
  case 1
  then show ?case by simp
next
  case (2 x xs)
  define g0 where "g0 = takeWhile (\<lambda>s. majorityVictories s = majorityVictories x) (x # xs)"
  define r where "r = dropWhile (\<lambda>s. majorityVictories s = majorityVictories x) (x # xs)"
  have groups: "tiedGroups (x # xs) = g0 # tiedGroups r"
    unfolding g0_def r_def by (rule tiedGroups.simps(2))
  have first: "majorityVictories s = majorityVictories x" if "s \<in> set g0" for s
    using that set_takeWhileD [of s "\<lambda>s. majorityVictories s = majorityVictories x" "x # xs"]
    unfolding g0_def by blast
  from "2.prems"(1) groups consider "g = g0" | "g \<in> set (tiedGroups r)"
    by auto
  then show ?case
  proof cases
    case 1
    then show ?thesis
      using first [of a] first [of b] "2.prems"(2,3) by simp
  next
    case 2
    then show ?thesis
      using "2.IH" "2.prems"(2,3) unfolding r_def by blast
  qed
qed

lemma tiedGroups_subset: "g \<in> set (tiedGroups xs) \<Longrightarrow> set g \<subseteq> set xs"
  using concat_tiedGroups [of xs] by (metis Sup_upper image_eqI set_concat)

text \<open>Every group of two or more is resolved by the cascade, and its outcome is a block of
  the list that the rank loop returns.\<close>

lemma rankLoop_groups:
  assumes "rankLoop skaters cr xs = Inr res" and "g \<in> set (tiedGroups xs)" and "length g \<noteq> 1"
  shows "\<exists>pre out post. res = pre @ out @ post \<and>
     resolveTiedGroup skaters (cr + length pre) g = Inr out"
  using assms
proof (induction skaters cr xs arbitrary: res rule: rankLoop.induct)
  case (1 skaters cr)
  then show ?case by simp
next
  case (2 skaters cr x xs)
  define g0 where "g0 = takeWhile (\<lambda>s. majorityVictories s = majorityVictories x) (x # xs)"
  define r where "r = dropWhile (\<lambda>s. majorityVictories s = majorityVictories x) (x # xs)"
  have groups: "tiedGroups (x # xs) = g0 # tiedGroups r"
    unfolding g0_def r_def by (rule tiedGroups.simps(2))
  have run: "rankLoop skaters cr (x # xs) =
      (case (if length g0 = 1 then Inr (g0[0 := (g0 ! 0)\<lparr>rank := cr\<rparr>])
             else resolveTiedGroup skaters cr g0) of
         Inl e \<Rightarrow> Inl e
       | Inr ranked \<Rightarrow>
           (case rankLoop skaters (cr + length g0) r of
              Inl e \<Rightarrow> Inl e
            | Inr others \<Rightarrow> Inr (ranked @ others)))"
    unfolding rankLoop.simps(2) [of skaters cr x xs] Let_def g0_def [symmetric] r_def [symmetric] ..
  from "2.prems"(1) run obtain ranked others where parts:
    "(if length g0 = 1 then Inr (g0[0 := (g0 ! 0)\<lparr>rank := cr\<rparr>])
      else resolveTiedGroup skaters cr g0) = Inr ranked"
    "rankLoop skaters (cr + length g0) r = Inr others" "res = ranked @ others"
    by (auto split: sum.splits)
  have lr: "length ranked = length g0"
  proof (cases "length g0 = 1")
    case True
    with parts(1) show ?thesis by auto
  next
    case False
    with parts(1) resolveTiedGroup_result [OF False, of skaters cr] show ?thesis by auto
  qed
  from "2.prems"(2) groups consider "g = g0" | "g \<in> set (tiedGroups r)"
    by auto
  then show ?case
  proof cases
    case 1
    then have "resolveTiedGroup skaters (cr + length ([]::SkaterResult list)) g = Inr ranked"
      using parts(1) "2.prems"(3) by simp
    then show ?thesis
      using parts(3) by (metis append_Nil)
  next
    case 2
    from "2.IH" [OF refl g0_def r_def parts(1) parts(2) 2 "2.prems"(3)]
    obtain pre out post where p: "others = pre @ out @ post"
      "resolveTiedGroup skaters (cr + length g0 + length pre) g = Inr out"
      by blast
    have "res = (ranked @ pre) @ out @ post"
      using parts(3) p(1) by simp
    moreover have "resolveTiedGroup skaters (cr + length (ranked @ pre)) g = Inr out"
      using p(2) lr by (simp add: add.assoc)
    ultimately show ?thesis by blast
  qed
qed

lemma scoredResults_fields:
  assumes "r \<in> set (sortedResults skaters)"
  shows "tieBreakLevel r = None" "tieBreakValue r = None"
    "totalScore r = roundToOneDecimal (calculateTotalScore r)"
    "SkaterScores.truncate r \<in> set skaters"
proof -
  from assms have "r \<in> set (scoredResults skaters)"
    by (simp add: sortedResults_def set_jsSort)
  then obtain s where s: "s \<in> set skaters"
    "r = (initialResult s)\<lparr>majorityVictories := the (calculateMajorityVictories skaters (name s)),
                  headToHeadResults := Some (calculateHeadToHeadDetails s skaters)\<rparr>"
    unfolding scoredResults_def by auto
  show "tieBreakLevel r = None" "tieBreakValue r = None"
    by (simp_all add: s(2) initialResult_def)
  show "totalScore r = roundToOneDecimal (calculateTotalScore r)"
    by (simp add: s(2) initialResult_def calculateTotalScore_def calculateJudgeTotals_def)
  show "SkaterScores.truncate r \<in> set skaters"
    using s(1) unfolding s(2) truncate_initialResult .
qed

lemma map_name_sortedResults: "mset (map name (sortedResults skaters)) = mset (map name skaters)"
proof -
  have "map name (scoredResults skaters) = map name skaters"
    by (simp add: scoredResults_def initialResult_def comp_def)
  then show ?thesis
    unfolding sortedResults_def by (simp add: mset_map_jsSort del: mset_map)
qed
section \<open>The tie-break summary\<close>



lemma competitorData_tieBreak_fields:
  "tieBreakLevel (r\<lparr>rank := k\<rparr>) = tieBreakLevel r" "tieBreakValue (r\<lparr>rank := k\<rparr>) = tieBreakValue r"
  "tieBreakLevel (r\<lparr>tieBreakInfo := i\<rparr>) = tieBreakLevel r"
  "tieBreakValue (r\<lparr>tieBreakInfo := i\<rparr>) = tieBreakValue r"
  by simp_all




section \<open>The cascade order\<close>

text \<open>
  C4. The claim fails on the code where two members of a tied group share a name, because
  the three accumulators of the cascade are keyed by name. At the input of two skaters
  named A who win one judge each, the two tie on the direct comparison (pair score 1
  each), and the first has the greater sum of artistic marks (1 against 0), so the claim
  puts the first before the second. The cascade holds one artistic sum for the name, 0,
  the one stored last, finds the two tied on the first three levels and orders them by
  total score: the second skater (total 6) is returned at rank 1, the first (total 5) at
  rank 2.
\<close>

theorem cascade_shared_name:
  "pairwiseComparison (sharedNameTie ! 0) (sharedNameTie ! 1) = 1 \<and>
   pairwiseComparison (sharedNameTie ! 1) (sharedNameTie ! 0) = 1 \<and>
   calculateBScoreSum (sharedNameTie ! 0) = 1 \<and>
   calculateBScoreSum (sharedNameTie ! 1) = 0 \<and>
   groupComparisonScores (sortedResults sharedNameTie) ''A'' = Some 2 \<and>
   groupBScoreSums (sortedResults sharedNameTie) ''A'' = Some 0 \<and>
   groupComparisonWithAll sharedNameTie (sortedResults sharedNameTie) ''A'' = Some 0 \<and>
   calculateRankings sharedNameTie =
     Inr [\<lparr>name = ''A'', aScores = [Some 1, Some 5], bScores = [Some 0, Some 0],
           totalScore = 6, rank = 1, majorityVictories = 1,
           tieBreakLevel = Some TotalScore, tieBreakValue = Some 6,
           tieBreakInfo = Some [(TotalScore, 6)], headToHeadResults = Some []\<rparr>,
          \<lparr>name = ''A'', aScores = [Some 3, Some 1], bScores = [Some 1, Some 0],
           totalScore = 5, rank = 2, majorityVictories = 1,
           tieBreakLevel = Some TotalScore, tieBreakValue = Some 5,
           tieBreakInfo = Some [(TotalScore, 5)], headToHeadResults = Some []\<rparr>]"
proof -
  have pair: "pairwiseComparison (sharedNameTie ! 0) (sharedNameTie ! 1) = 1"
    "pairwiseComparison (sharedNameTie ! 1) (sharedNameTie ! 0) = 1"
    by code_simp+
  have sums: "calculateBScoreSum (sharedNameTie ! 0) = 1" "calculateBScoreSum (sharedNameTie ! 1) = 0"
    by code_simp+
  have held: "groupComparisonScores (sortedResults sharedNameTie) ''A'' = Some 2"
    "groupBScoreSums (sortedResults sharedNameTie) ''A'' = Some 0"
    "groupComparisonWithAll sharedNameTie (sortedResults sharedNameTie) ''A'' = Some 0"
    by code_simp+
  have ranking: "calculateRankings sharedNameTie =
     Inr [\<lparr>name = ''A'', aScores = [Some 1, Some 5], bScores = [Some 0, Some 0],
           totalScore = 6, rank = 1, majorityVictories = 1,
           tieBreakLevel = Some TotalScore, tieBreakValue = Some 6,
           tieBreakInfo = Some [(TotalScore, 6)], headToHeadResults = Some []\<rparr>,
          \<lparr>name = ''A'', aScores = [Some 3, Some 1], bScores = [Some 1, Some 0],
           totalScore = 5, rank = 2, majorityVictories = 1,
           tieBreakLevel = Some TotalScore, tieBreakValue = Some 5,
           tieBreakInfo = Some [(TotalScore, 5)], headToHeadResults = Some []\<rparr>]"
    by code_simp
  show ?thesis
    using pair sums held ranking by (intro conjI)
qed

section \<open>The cascade where the names are distinct\<close>

lemma lexDescending_trans:
  "lexDescending a b \<Longrightarrow> lexDescending b c \<Longrightarrow> lexDescending a c"
  unfolding lexDescending_def by (cases a; cases b; cases c) auto

lemma cascadeCompare_lex:
  "cascadeCompare cs bs ca a b > 0 \<Longrightarrow>
     lexDescending (the (cs (name b)), the (bs (name b)), the (ca (name b)), totalScore b)
                   (the (cs (name a)), the (bs (name a)), the (ca (name a)), totalScore a)"
  "\<not> cascadeCompare cs bs ca a b > 0 \<Longrightarrow>
     lexDescending (the (cs (name a)), the (bs (name a)), the (ca (name a)), totalScore a)
                   (the (cs (name b)), the (bs (name b)), the (ca (name b)), totalScore b)"
  unfolding lexDescending_def cascadeCompare_def Let_def
  by (auto split: if_splits)

lemma sorted_cascadeSorted:
  "sorted_wrt (\<lambda>a b. lexDescending
       (the (groupComparisonScores g (name a)), the (groupBScoreSums g (name a)),
        the (groupComparisonWithAll skaters g (name a)), totalScore a)
       (the (groupComparisonScores g (name b)), the (groupBScoreSums g (name b)),
        the (groupComparisonWithAll skaters g (name b)), totalScore b))
     (cascadeSorted skaters g)"
  unfolding cascadeSorted_def
  by (rule sorted_wrt_jsSort) (erule cascadeCompare_lex lexDescending_trans, assumption?)+
lemma calculateJudgeTotals_truncate [simp]:
  "calculateJudgeTotals (SkaterScores.truncate r) = calculateJudgeTotals r"
  by (simp add: calculateJudgeTotals_def SkaterScores.truncate_def)

lemma truncate_fields [simp]:
  "name (SkaterScores.truncate r) = name r"
  "aScores (SkaterScores.truncate r) = aScores r"
  "bScores (SkaterScores.truncate r) = bScores r"
  by (simp_all add: SkaterScores.truncate_def)

lemma pairwiseComparison_truncate:
  "pairwiseComparison (SkaterScores.truncate a) c = pairwiseComparison a c"
  "pairwiseComparison a (SkaterScores.truncate c) = pairwiseComparison a c"
  by (simp_all add: pairwiseComparison_def)

lemma addDirectComparison_value:
  assumes "name a \<noteq> name b"
  shows "the (addDirectComparison a b m k) =
     the (m k) + (if k = name a then pairwiseComparison a b else 0)
               + (if k = name b then pairwiseComparison b a else 0)"
  unfolding addDirectComparison_def Let_def pairwiseComparison_complement
  using assms by auto

lemma foldl_name_update_value:
  assumes "distinct (map name ts)" and "t \<in> set ts"
  shows "foldl (\<lambda>m s. m(name s \<mapsto> f s)) m0 ts (name t) = Some (f t)"
  using assms
proof (induction ts arbitrary: m0 rule: rev_induct)
  case Nil
  then show ?case by simp
next
  case (snoc s ts)
  show ?case
  proof (cases "t = s")
    case True
    then show ?thesis by simp
  next
    case False
    then have t: "t \<in> set ts" using snoc.prems(2) by simp
    have "name s \<notin> name ` set ts" "distinct (map name ts)"
      using snoc.prems(1) by simp_all
    then have "name t \<noteq> name s"
      using t by (auto simp: fresh_name_iff)
    then show ?thesis
      using snoc.IH [OF \<open>distinct (map name ts)\<close> t] by simp
  qed
qed

lemma comparisonWithAllScore_sum:
  "comparisonWithAllScore x skaters = pairScoreSum skaters x"
proof -
  have "foldl (\<lambda>total otherSkater.
              if name x = name otherSkater then total
              else total + pairwiseComparison x otherSkater) acc skaters =
      acc + (\<Sum>Y\<leftarrow>filter (\<lambda>Y. name Y \<noteq> name x) skaters. pairwiseComparison x Y)" for acc
    by (induction skaters arbitrary: acc) auto
  then show ?thesis
    by (simp add: comparisonWithAllScore_def pairScoreSum_def)
qed

lemma calculateBScoreSum_sum: "calculateBScoreSum x = artisticSum x"
proof -
  have "foldl (\<lambda>sum score. sum + score) acc xs = acc + sum_list xs" for acc :: real and xs
    by (induction xs arbitrary: acc) simp_all
  then show ?thesis
    by (simp add: calculateBScoreSum_def artisticSum_def)
qed

lemma pairScoreSum_truncate:
  "pairScoreSum U (SkaterScores.truncate x) = pairScoreSum U x"
  "pairScoreSum (map SkaterScores.truncate g) y = pairScoreSum g y"
  by (simp_all add: pairScoreSum_def filter_map comp_def pairwiseComparison_truncate)

text \<open>With distinct names, what the accumulators hold under the name of a member is the
  member's own value.\<close>

lemma group_values_distinct:
  assumes dist: "distinct (map name g)" and x: "x \<in> set g"
  shows "the (groupComparisonScores g (name x)) = pairScoreSum g x"
    and "the (groupBScoreSums g (name x)) = artisticSum x"
    and "the (groupComparisonWithAll skaters g (name x)) = pairScoreSum skaters x"
proof -
  let ?T = "map SkaterScores.truncate g"
  have dT: "distinct (map name ?T)"
    using dist by (simp add: comp_def)
  have xT: "SkaterScores.truncate x \<in> set ?T"
    using x by simp
  have "the (pairLoop addDirectComparison ?T (initScores ?T) (name (SkaterScores.truncate x))) =
      the (initScores ?T (name (SkaterScores.truncate x))) +
      (\<Sum>y\<leftarrow>filter (\<lambda>y. name y \<noteq> name (SkaterScores.truncate x)) ?T.
          pairwiseComparison (SkaterScores.truncate x) y)"
    by (rule pairLoop_value_member [of addDirectComparison pairwiseComparison, OF addDirectComparison_value dT xT])
  moreover have "initScores ?T (name (SkaterScores.truncate x)) = Some 0"
    using xT by (intro initScores_value) (rule imageI)
  ultimately have "the (groupComparisonScores g (name x)) =
      pairScoreSum ?T (SkaterScores.truncate x)"
    by (simp add: groupComparisonScores_def tieBreakByDirectComparison_def pairScoreSum_def)
  then show "the (groupComparisonScores g (name x)) = pairScoreSum g x"
    by (simp add: pairScoreSum_truncate)
  have "groupBScoreSums g (name (SkaterScores.truncate x)) = Some (calculateBScoreSum (SkaterScores.truncate x))"
    unfolding groupBScoreSums_def by (rule foldl_name_update_value [OF dT xT])
  then show "the (groupBScoreSums g (name x)) = artisticSum x"
    by (simp add: calculateBScoreSum_sum artisticSum_def)
  have "groupComparisonWithAll skaters g (name (SkaterScores.truncate x)) =
      Some (comparisonWithAllScore (SkaterScores.truncate x) skaters)"
    unfolding groupComparisonWithAll_def tieBreakByComparisonWithAll_def
    by (rule foldl_name_update_value [OF dT xT])
  then show "the (groupComparisonWithAll skaters g (name x)) = pairScoreSum skaters x"
    by (simp add: comparisonWithAllScore_sum pairScoreSum_truncate)
qed
lemma distinct_map_concat_member:
  "g \<in> set gs \<Longrightarrow> distinct (map f (concat gs)) \<Longrightarrow> distinct (map f g)"
  by (induction gs) auto

lemma tiedGroups_distinct_names:
  assumes "distinct (map name skaters)" and "g \<in> set (tiedGroups (sortedResults skaters))"
  shows "distinct (map name g)"
proof -
  have "distinct (map name (sortedResults skaters))"
    using assms(1) mset_eq_imp_distinct_iff [OF map_name_sortedResults [of skaters]] by simp
  then have "distinct (map name (concat (tiedGroups (sortedResults skaters))))"
    by (simp only: concat_tiedGroups)
  with assms(2) show ?thesis
    by (rule distinct_map_concat_member)
qed

lemma spec_values_cong:
  assumes "competitorData a = competitorData x"
  shows "pairScoreSum G a = pairScoreSum G x" "artisticSum a = artisticSum x"
    "roundedTotal a = roundedTotal x"
proof -
  note f = competitorData_fields(1,2,3) [OF assms]
  have t: "calculateJudgeTotals a = calculateJudgeTotals x"
    by (simp add: calculateJudgeTotals_def f)
  have "pairwiseComparison a Y = pairwiseComparison x Y" for Y :: "'a SkaterScores_scheme"
    by (simp add: pairwiseComparison_def t f)
  then show "pairScoreSum G a = pairScoreSum G x"
    by (simp add: pairScoreSum_def f)
  show "artisticSum a = artisticSum x"
    by (simp add: artisticSum_def f)
  show "roundedTotal a = roundedTotal x"
    by (simp add: roundedTotal_def t)
qed

lemma totalScore_roundedTotal:
  assumes "r \<in> set (sortedResults skaters)"
  shows "totalScore r = roundedTotal r"
proof -
  have "foldl (\<lambda>sum total. sum + total) acc xs = acc + sum_list xs" for acc :: real and xs
    by (induction xs arbitrary: acc) simp_all
  then have "calculateTotalScore r = sum_list (calculateJudgeTotals r)"
    by (simp add: calculateTotalScore_def)
  then show ?thesis
    using scoredResults_fields(3) [OF assms] by (simp add: roundedTotal_def)
qed

text \<open>
  Where the names are pairwise distinct, the cascade does what C4 says: every tied group
  of the ranking is returned as a block in which the members stand descending by the sum
  of their pair scores against the other members of the group, then by the sum of their
  artistic marks, then by the sum of their pair scores against all other skaters, then by
  the rounded total score.
\<close>

lemma cascade_order_distinct_names:
  assumes dist: "distinct (map name skaters)"
    and g: "g \<in> set (tiedGroups (sortedResults skaters))" and len: "length g \<noteq> 1"
  shows "\<exists>pre out post. calculateRankings skaters = Inr (pre @ out @ post) \<and>
     mset (map competitorData out) = mset (map competitorData g) \<and>
     sorted_wrt (cascadePrecedes g skaters) out"
proof -
  define K where "K = (\<lambda>a::SkaterResult. (the (groupComparisonScores g (name a)), the (groupBScoreSums g (name a)),
        the (groupComparisonWithAll skaters g (name a)), totalScore a))"
  define S where "S = (\<lambda>a::SkaterResult. (pairScoreSum g a, artisticSum a, pairScoreSum skaters a, roundedTotal a))"
  have ne: "skaters \<noteq> []"
  proof
    assume "skaters = []"
    then have "sortedResults skaters = []"
      by (simp add: sortedResults_def scoredResults_def jsSort_def)
    with g show False by simp
  qed
  obtain res where res: "calculateRankings skaters = Inr res"
    using calculateRankings_result [of skaters] by blast
  then have loop: "rankLoop skaters 1 (sortedResults skaters) = Inr res"
    using calculateRankings_rankLoop [OF ne] by simp
  from rankLoop_groups [OF loop g len]
  obtain pre out post where blocks: "res = pre @ out @ post"
    "resolveTiedGroup skaters (1 + length pre) g = Inr out"
    by blast
  note data = resolveTiedGroup_data(1) [OF len blocks(2)]
  have perm: "mset (map competitorData out) = mset (map competitorData g)"
    unfolding data mset_map mset_cascadeSorted ..
  have Kcd: "K (competitorData a) = K a" for a
    by (simp add: K_def competitorData_def)
  have "sorted_wrt (\<lambda>a b. lexDescending (K a) (K b)) (cascadeSorted skaters g)"
    unfolding K_def by (rule sorted_cascadeSorted)
  then have "sorted_wrt (\<lambda>a b. lexDescending (K a) (K b)) (map competitorData (cascadeSorted skaters g))"
    by (simp add: sorted_wrt_map Kcd)
  then have "sorted_wrt (\<lambda>a b. lexDescending (K a) (K b)) (map competitorData out)"
    unfolding data .
  then have sortedK: "sorted_wrt (\<lambda>a b. lexDescending (K a) (K b)) out"
    by (simp add: sorted_wrt_map Kcd)
  have dg: "distinct (map name g)"
    using dist g by (rule tiedGroups_distinct_names)
  have sub: "set g \<subseteq> set (sortedResults skaters)"
    using g by (rule tiedGroups_subset)
  have KS: "K a = S a" if "a \<in> set out" for a
  proof -
    have "set (map competitorData out) = set (map competitorData g)"
      using perm by (rule mset_eq_setD)
    moreover have "competitorData a \<in> set (map competitorData out)"
      using that by simp
    ultimately have "competitorData a \<in> competitorData ` set g"
      by simp
    then obtain x where x: "x \<in> set g" "competitorData a = competitorData x"
      by blast
    have "K a = K x"
      using Kcd [of a] Kcd [of x] x(2) by simp
    also have "\<dots> = S x"
      using group_values_distinct(1,2) [OF dg x(1)] group_values_distinct(3) [OF dg x(1), of skaters]
        totalScore_roundedTotal [of x skaters] sub x(1)
      by (auto simp: K_def S_def)
    also have "\<dots> = S a"
      using spec_values_cong(1) [OF x(2), of g] spec_values_cong(1) [OF x(2), of skaters]
        spec_values_cong(2,3) [OF x(2)]
      by (simp add: S_def)
    finally show ?thesis .
  qed
  have "sorted_wrt (\<lambda>a b. lexDescending (S a) (S b)) out"
    using sortedK by (rule sorted_wrt_mono_rel [rotated]) (simp add: KS)
  then have "sorted_wrt (cascadePrecedes g skaters) out"
    unfolding S_def cascadePrecedes_def .
  moreover have "calculateRankings skaters = Inr (pre @ out @ post)"
    using res blocks(1) by simp
  ultimately show ?thesis
    using perm by blast
qed

text \<open>Where the names are pairwise distinct, the cascade values that the code holds for a
  member of a tied group are the member's own.\<close>

lemma cascadeValues_distinct_names:
  assumes "distinct (map name skaters)" and "g \<in> set (tiedGroups (sortedResults skaters))"
    and "x \<in> set g"
  shows "cascadeValues skaters g x =
     [(DirectComparison, pairScoreSum g x), (BScoreSum, artisticSum x),
      (ComparisonAll, pairScoreSum skaters x), (TotalScore, roundedTotal x)]"
proof -
  have dg: "distinct (map name g)"
    using assms(1,2) by (rule tiedGroups_distinct_names)
  have "x \<in> set (sortedResults skaters)"
    using tiedGroups_subset [OF assms(2)] assms(3) by blast
  then have "totalScore x = roundedTotal x"
    by (rule totalScore_roundedTotal)
  then show ?thesis
    using group_values_distinct(1,2) [OF dg assms(3)]
      group_values_distinct(3) [OF dg assms(3), of skaters]
    by (simp add: cascadeValues_def)
qed

end
